theory Spec2Isabelle
  imports Main "HOL-Library.Word" "HOL-Library.Sublist"
begin

section \<open>The heading rule of the content converter (index.ts, lines 14 to 21)\<close>

text \<open>
  A JavaScript string is a sequence of 16-bit code units. \<open>utf16\<close> writes an ASCII
  literal as such a sequence; it is used for the literals of the source and for concrete
  inputs only.
\<close>

type_synonym jsstring = "16 word list"

definition utf16 :: "string \<Rightarrow> jsstring" where
  "utf16 s = map (\<lambda>c. word_of_nat (of_char c)) s"

text \<open>
  \<open>content.replace(/\[]\([^)]+\)/g, '')\<close>. The pattern is the three code units
  \<open>[](\<close>, then one or more code units other than \<open>)\<close> (the class is negated, so
  it also takes line terminators; the quantifier is greedy, and giving characters back never
  helps since every one of them is not \<open>)\<close>), then \<open>)\<close>. With the \<open>g\<close> flag
  \<open>replace\<close> scans from index 0: where the pattern matches, the match is dropped and the
  scan goes on behind it; where it does not, the code unit is kept and the scan moves on by
  one. A match is never empty.
\<close>

function remove_remnants :: "jsstring \<Rightarrow> jsstring" where
  "remove_remnants [] = []"
| "remove_remnants (c # cs) =
     (if take 3 (c # cs) = [0x5B, 0x5D, 0x28]
         \<and> takeWhile (\<lambda>x. x \<noteq> 0x29) (drop 3 (c # cs)) \<noteq> []
         \<and> dropWhile (\<lambda>x. x \<noteq> 0x29) (drop 3 (c # cs)) \<noteq> []
      then remove_remnants (tl (dropWhile (\<lambda>x. x \<noteq> 0x29) (drop 3 (c # cs))))
      else c # remove_remnants cs)"
  by pat_completeness auto
termination
proof (relation "measure length")
  show "wf (measure (length :: jsstring \<Rightarrow> nat))"
    by simp
next
  fix c :: "16 word" and cs :: jsstring
  have "length (dropWhile (\<lambda>x. x \<noteq> 0x29) (drop 3 (c # cs))) \<le> length (drop 3 (c # cs))"
    by (rule length_dropWhile_le)
  then show "(tl (dropWhile (\<lambda>x. x \<noteq> 0x29) (drop 3 (c # cs))), c # cs)
      \<in> measure length"
    by simp
next
  fix c :: "16 word" and cs :: jsstring
  show "(cs, c # cs) \<in> measure length"
    by simp
qed

text \<open>
  \<open>String.prototype.trim\<close> strips the code units of WhiteSpace and LineTerminator from
  both ends: TAB, LF, VT, FF, CR, SP, NBSP, U+1680, U+2000 to U+200A, U+2028, U+2029,
  U+202F, U+205F, U+3000 and U+FEFF. All of them are single code units.
\<close>

definition is_js_whitespace :: "16 word \<Rightarrow> bool" where
  "is_js_whitespace c \<longleftrightarrow>
     c \<in> {0x09, 0x0A, 0x0B, 0x0C, 0x0D, 0x20, 0xA0, 0x1680, 0x2028, 0x2029, 0x202F,
          0x205F, 0x3000, 0xFEFF}
     \<or> (0x2000 \<le> c \<and> c \<le> 0x200A)"

definition trim :: "jsstring \<Rightarrow> jsstring" where
  "trim s = rev (dropWhile is_js_whitespace (rev (dropWhile is_js_whitespace s)))"

text \<open>\<open>s.charAt(i)\<close>: the code unit at \<open>i\<close> as a string, the empty string out of range.\<close>

definition charAt :: "jsstring \<Rightarrow> nat \<Rightarrow> jsstring" where
  "charAt s i = (if i < length s then [s ! i] else [])"

text \<open>
  \<open>Number(s)\<close> for the strings \<open>charAt\<close> returns (at most one code unit): a decimal
  digit is its value, the empty string and a white space character are 0, everything else
  is NaN, here \<open>None\<close>. Longer strings are not read by the rule.
\<close>

definition Number :: "jsstring \<Rightarrow> nat option" where
  "Number s =
     (case s of
        [] \<Rightarrow> Some 0
      | [c] \<Rightarrow> (if 0x30 \<le> c \<and> c \<le> 0x39 then Some (unat c - 48)
                else if is_js_whitespace c then Some 0 else None)
      | _ \<Rightarrow> None)"

text \<open>\<open>s.repeat(n)\<close>: \<open>n\<close> copies of \<open>s\<close>; a count of NaN is read as 0.\<close>

definition repeat :: "jsstring \<Rightarrow> nat option \<Rightarrow> jsstring" where
  "repeat s n = concat (replicate (case n of None \<Rightarrow> 0 | Some k \<Rightarrow> k) s)"

text \<open>
  The DOM node the rule receives. Only \<open>nodeName\<close> is read; what else a node holds is the
  record's extension. The third parameter, Turndown's options, is of any type.
\<close>

record dom_node =
  nodeName :: jsstring

definition hLevel :: "'a dom_node_scheme \<Rightarrow> nat option" where
  "hLevel node = Number (charAt (nodeName node) 1)"

definition replacement :: "jsstring \<Rightarrow> 'a dom_node_scheme \<Rightarrow> 'o \<Rightarrow> jsstring" where
  "replacement content node options =
     utf16 ''\<newline>\<newline>'' @ repeat (utf16 ''#'') (hLevel node) @ utf16 '' ''
       @ trim (remove_remnants content) @ utf16 ''\<newline>\<newline>''"

subsection \<open>The rule with the state of its RegExp object\<close>

text \<open>
  The one piece of mutable state the rule works on is the RegExp object of its literal: a
  RegExp with the \<open>g\<close> flag keeps in \<open>lastIndex\<close> where its next match starts, and
  \<open>exec\<close> reads and writes it. The rule is therefore written a second time, with that
  state passed along. The heap holds the RegExp objects of the program, an object is named
  by its index, and the pattern and the flag of every object are those of the literal of
  line 18.

  \<open>matcher s i\<close> is the match of the pattern that starts exactly at \<open>i\<close>: the index
  behind it, or a failure. \<open>scan\<close> and \<open>RegExpBuiltinExec\<close> are the operation of the same
  name of ECMAScript: it reads \<open>lastIndex\<close>; from there it tries every index in turn up to
  the length of the string; when none matches it writes 0 to \<open>lastIndex\<close> and returns
  null; at a match it writes the end of the match to \<open>lastIndex\<close> and returns the start
  and the end.
\<close>

record regexp =
  lastIndex :: nat

type_synonym heap = "regexp list"

definition matcher :: "jsstring \<Rightarrow> nat \<Rightarrow> nat option" where
  "matcher s i =
     (if take 3 (drop i s) = [0x5B, 0x5D, 0x28]
         \<and> takeWhile (\<lambda>x. x \<noteq> 0x29) (drop (i + 3) s) \<noteq> []
         \<and> dropWhile (\<lambda>x. x \<noteq> 0x29) (drop (i + 3) s) \<noteq> []
      then Some (i + 3 + length (takeWhile (\<lambda>x. x \<noteq> 0x29) (drop (i + 3) s)) + 1)
      else None)"

function scan :: "jsstring \<Rightarrow> nat \<Rightarrow> (nat \<times> nat) option" where
  "scan s i =
     (if length s < i then None
      else (case matcher s i of Some e \<Rightarrow> Some (i, e) | None \<Rightarrow> scan s (Suc i)))"
  by pat_completeness auto
termination
  by (relation "measure (\<lambda>(s, i). Suc (length s) - i)") auto

declare scan.simps [simp del]

definition RegExpBuiltinExec :: "nat \<Rightarrow> jsstring \<Rightarrow> heap \<Rightarrow> (nat \<times> nat) option \<times> heap" where
  "RegExpBuiltinExec R s h =
     (case scan s (lastIndex (h ! R)) of
        None \<Rightarrow> (None, h[R := (h ! R)\<lparr>lastIndex := 0\<rparr>])
      | Some (i, e) \<Rightarrow> (Some (i, e), h[R := (h ! R)\<lparr>lastIndex := e\<rparr>]))"

text \<open>
  \<open>String.prototype.replace\<close> with a RegExp and the replacement \<open>''\<close> is
  \<open>RegExp.prototype[Symbol.replace]\<close>. With the \<open>g\<close> flag it first writes 0 to
  \<open>lastIndex\<close>; then it calls \<open>exec\<close> until that returns null and collects the results
  (\<open>collect\<close>; behind an empty match it moves \<open>lastIndex\<close> on by one); then it puts the
  string together from the stretches between the matches (\<open>build\<close>: a result that starts
  before the end of the one before it is passed over). A reference of JavaScript always
  holds an object; for an index outside the heap the loop of the model ends at once.
\<close>

function collect :: "nat \<Rightarrow> jsstring \<Rightarrow> heap \<Rightarrow> (nat \<times> nat) list \<times> heap" where
  "collect rx s h =
     (if rx < length h
      then (case RegExpBuiltinExec rx s h of
              (None, h') \<Rightarrow> ([], h')
            | (Some (i, e), h') \<Rightarrow>
                (case collect rx s
                        (if e = i
                         then h'[rx := (h' ! rx)\<lparr>lastIndex := Suc (lastIndex (h' ! rx))\<rparr>]
                         else h') of
                   (results, h'') \<Rightarrow> ((i, e) # results, h'')))
      else ([], h))"
  by pat_completeness auto
termination
proof (relation "measure (\<lambda>(rx, s, h). Suc (length s) - lastIndex (h ! rx))")
  show "wf (measure (\<lambda>(rx, s, h). Suc (length s) - lastIndex (h ! rx)))"
    by simp
next
  fix rx :: nat and s :: jsstring and h h' :: heap
    and found :: "(nat \<times> nat) option" and m :: "nat \<times> nat" and i e :: nat
  assume rx: "rx < length h" and "(found, h') = RegExpBuiltinExec rx s h"
    and "found = Some m" and "(i, e) = m"
  then have exec: "RegExpBuiltinExec rx s h = (Some (i, e), h')"
    by simp
  have bounds: "j \<le> i' \<and> i' \<le> length s \<and> i' < e'" if "scan s j = Some (i', e')" for j i' e'
    using that
  proof (induction s j rule: scan.induct)
    case (1 s j)
    show ?case
    proof (cases "matcher s j")
      case None
      with "1.prems" have "\<not> length s < j" and "scan s (Suc j) = Some (i', e')"
        by (simp_all add: scan.simps [of s j] split: if_splits)
      with "1.IH" None show ?thesis
        by fastforce
    next
      case (Some e'')
      with "1.prems" show ?thesis
        by (auto simp: scan.simps [of s j] matcher_def split: if_splits)
    qed
  qed
  from exec have sc: "scan s (lastIndex (h ! rx)) = Some (i, e)"
    and h': "h' = h[rx := (h ! rx)\<lparr>lastIndex := e\<rparr>]"
    by (auto simp: RegExpBuiltinExec_def split: option.splits)
  from bounds [OF sc] rx h'
  show "((rx, s, if e = i then h'[rx := (h' ! rx)\<lparr>lastIndex := Suc (lastIndex (h' ! rx))\<rparr>]
                else h'), rx, s, h)
      \<in> measure (\<lambda>(rx, s, h). Suc (length s) - lastIndex (h ! rx))"
    by auto
qed

declare collect.simps [simp del]

fun build :: "jsstring \<Rightarrow> nat \<Rightarrow> (nat \<times> nat) list \<Rightarrow> jsstring" where
  "build s position [] = drop position s"
| "build s position ((i, e) # results) =
     (if position \<le> i then take (i - position) (drop position s) @ build s e results
      else build s position results)"

definition replace :: "nat \<Rightarrow> jsstring \<Rightarrow> heap \<Rightarrow> jsstring \<times> heap" where
  "replace rx s h =
     (case collect rx s (h[rx := (h ! rx)\<lparr>lastIndex := 0\<rparr>]) of
        (results, h') \<Rightarrow> (build s 0 results, h'))"

text \<open>
  The rule itself (lines 16 to 20). Each call evaluates the literal of line 18, which
  creates a new RegExp object with \<open>lastIndex\<close> 0 at the end of the heap, and calls
  \<open>replace\<close> with it. The rule returns its text and leaves the heap it has worked on.
  \<open>invocations\<close> is a series of calls of the rule, each on the heap the call before it
  has left; the node of each call is given by its name.
\<close>

definition heading_replacement ::
  "jsstring \<Rightarrow> 'a dom_node_scheme \<Rightarrow> 'o \<Rightarrow> heap \<Rightarrow> jsstring \<times> heap" where
  "heading_replacement content node options h =
     (case replace (length h) content (h @ [\<lparr>lastIndex = 0\<rparr>]) of
        (cleanContent, h') \<Rightarrow>
          (utf16 ''\<newline>\<newline>'' @ repeat (utf16 ''#'') (Number (charAt (nodeName node) 1))
             @ utf16 '' '' @ trim cleanContent @ utf16 ''\<newline>\<newline>'',
           h'))"

fun invocations :: "(jsstring \<times> jsstring) list \<Rightarrow> heap \<Rightarrow> jsstring list \<times> heap" where
  "invocations [] h = ([], h)"
| "invocations ((content, name) # calls) h =
     (case heading_replacement content \<lparr>nodeName = name\<rparr> () h of
        (out, h') \<Rightarrow>
          (case invocations calls h' of (outs, h'') \<Rightarrow> (out # outs, h'')))"

subsection \<open>The pattern in the words of the claims\<close>

text \<open>
  An occurrence of the pattern as the claims describe it: \<open>[](\<close>, then \<open>x\<close>, then
  \<open>)\<close>, where \<open>x\<close> is not empty and holds no \<open>)\<close>. \<open>open_remnant s\<close> says that
  somewhere in \<open>s\<close> a \<open>[](\<close> stands with no \<open>)\<close> behind it: a match that starts
  there ends only in what follows \<open>s\<close>.
\<close>

definition remnant :: "jsstring \<Rightarrow> jsstring" where
  "remnant x = [0x5B, 0x5D, 0x28] @ x @ [0x29]"

fun open_remnant :: "jsstring \<Rightarrow> bool" where
  "open_remnant [] = False"
| "open_remnant (c # cs) =
     ((take 3 (c # cs) = [0x5B, 0x5D, 0x28] \<and> 0x29 \<notin> set (drop 3 (c # cs)))
      \<or> open_remnant cs)"


section \<open>The plugin: settings, commands and the scheduler (index.ts, lines 29 to 204)\<close>

subsection \<open>The settings store of the host\<close>

text \<open>
  A setting is a string or a number. \<open>registerSettings\<close> lists the keys with the values
  they are registered with (lines 36 to 147); \<open>LogLevel.ErrorsAndWarnings\<close> is
  \<open>'warn'\<close>. \<open>syncInterval\<close> is registered with the string \<open>'0'\<close>,
  \<open>highlightSyncPeriod\<close> with the number 14. The store holds what has been written;
  \<open>joplin.settings.value(k)\<close> is the value written last, and the registered value of a
  key never written.
\<close>

datatype setting = SString string | SNumber int

type_synonym settings = "string \<rightharpoonup> setting"

definition registerSettings :: "(string \<times> setting) list" where
  "registerSettings =
     [(''omnivoreApiKey'', SString ''''),
      (''syncType'', SString ''all''),
      (''syncInterval'', SString ''0''),
      (''targetNotebook'', SString ''Omnivore''),
      (''userTimezone'', SString ''local''),
      (''highlightTemplateChoice'', SString ''default''),
      (''highlightSyncPeriod'', SNumber 14),
      (''highlightTitlePrefix'', SString ''Omnivore Highlights''),
      (''logLevel'', SString ''warn''),
      (''lastSyncDate'', SString ''''),
      (''syncedItems'', SString ''[]''),
      (''syncedHighlights'', SString ''{}'')]"

definition setting_value :: "settings \<Rightarrow> string \<Rightarrow> setting option" where
  "setting_value st k = (case st k of Some v \<Rightarrow> Some v | None \<Rightarrow> map_of registerSettings k)"

text \<open>
  The conversions the conditions of the source apply. \<open>truthy\<close> is ToBoolean
  (\<open>!apiKey\<close>, \<open>if (apiKey)\<close>): \<open>undefined\<close> (here \<open>None\<close>), the empty string and
  0 are false. \<open>ToNumber\<close> serves \<open>interval > 0\<close> and \<open>interval * 60 * 1000\<close>: a
  number is itself, the empty string is 0, a string of decimal digits is its value, and
  \<open>undefined\<close> is NaN (here \<open>None\<close>), for which the comparison is false. Strings with
  a sign, white space, a fraction, an exponent or a radix prefix are numbers in
  JavaScript too; the model reads them as NaN, so it covers the registered \<open>'0'\<close>, plain
  decimal strings and the integers the host stores for a setting of type Int.
\<close>

fun truthy :: "setting option \<Rightarrow> bool" where
  "truthy None = False"
| "truthy (Some (SString s)) = (s \<noteq> [])"
| "truthy (Some (SNumber n)) = (n \<noteq> 0)"

definition is_digit :: "char \<Rightarrow> bool" where
  "is_digit c \<longleftrightarrow> 48 \<le> (of_char c :: nat) \<and> (of_char c :: nat) \<le> 57"

definition decimal :: "string \<Rightarrow> int" where
  "decimal s = foldl (\<lambda>n c. 10 * n + (int (of_char c) - 48)) 0 s"

fun ToNumber :: "setting option \<Rightarrow> int option" where
  "ToNumber None = None"
| "ToNumber (Some (SNumber n)) = Some n"
| "ToNumber (Some (SString s)) =
     (if s = [] then Some 0 else if list_all is_digit s then Some (decimal s) else None)"

subsection \<open>State, suspended calls and events\<close>

text \<open>
  Every function of the plugin is \<open>async\<close>: it runs to its next \<open>await\<close>, is suspended
  there, and goes on when the host resolves the call it waits for; other callbacks run in
  between. A \<open>task\<close> is one suspended call, named by the \<open>await\<close> it stands at:
  \<^item> \<open>AwaitApiKey\<close>: line 171 (the command) or line 188 (the timer callback);
  \<^item> \<open>AwaitSyncArticles\<close>: line 177 or line 191, a sync run that has been started and
    has not ended;
  \<^item> \<open>AwaitConfirm\<close>: line 153; \<open>AwaitSetLastSyncDate\<close>, \<open>AwaitSetSyncedItems\<close>,
    \<open>AwaitSetSyncedHighlights\<close>: lines 156 to 158; \<open>AwaitNotice\<close>: line 160;
  \<^item> \<open>AwaitInterval\<close>: line 185, in \<open>setupScheduledSync\<close>, called from \<open>onStart\<close>
    (line 197, \<open>True\<close>) or from the change listener (line 199, \<open>False\<close>);
  \<^item> \<open>AwaitOnChange\<close>: line 198.

  The host does what a call asks for at the moment it resolves it. The source has no
  \<open>try\<close>: when the host rejects a call, the function that waits for it ends there.
  \<open>setInterval\<close> appends a recurring timer, kept as its delay in milliseconds; the source
  keeps no handle of a timer and never calls \<open>clearInterval\<close>, so the list only grows.
  \<open>syncArticles\<close> and \<open>OmnivoreClient\<close> are imported from modules outside this file:
  their calls are recorded as effects, and a run lasts from its call to the event that
  settles its promise.
\<close>

datatype trigger = Manual | Scheduled

datatype task =
    AwaitApiKey trigger
  | AwaitSyncArticles trigger
  | AwaitConfirm
  | AwaitSetLastSyncDate
  | AwaitSetSyncedItems
  | AwaitSetSyncedHighlights
  | AwaitNotice
  | AwaitInterval bool
  | AwaitOnChange

datatype effect =
    ConsoleLog string
  | ConsoleError string
  | ShowMessageBox string
  | NewOmnivoreClient "setting option"
  | SyncArticles "setting option"

record plugin =
  stored :: settings
  timers :: "int list"
  tasks :: "task list"
  listening :: bool
  effects :: "effect list"

text \<open>
  What happens to the plugin: the operator runs one of the two commands; a recurring timer
  (by its index) fires; the host reports a change of the settings; a setting is written
  from outside this file (the settings screen, the sync module); the host resolves or
  rejects the call a task waits for; the operator answers the confirmation dialog of a
  task with a button (0 is OK).
\<close>

datatype event =
    SyncOmnivoreArticles
  | ResetOmnivoreSyncData
  | TimerFires nat
  | SettingsChanged
  | SettingWritten string setting
  | Resolves nat
  | Answers nat int
  | Rejects nat

definition spawn :: "task \<Rightarrow> plugin \<Rightarrow> plugin" where
  "spawn t s = s\<lparr>tasks := tasks s @ [t]\<rparr>"

definition await :: "nat \<Rightarrow> task \<Rightarrow> plugin \<Rightarrow> plugin" where
  "await n t s = s\<lparr>tasks := (tasks s)[n := t]\<rparr>"

definition finish :: "nat \<Rightarrow> plugin \<Rightarrow> plugin" where
  "finish n s = s\<lparr>tasks := take n (tasks s) @ drop (Suc n) (tasks s)\<rparr>"

definition emit :: "effect list \<Rightarrow> plugin \<Rightarrow> plugin" where
  "emit es s = s\<lparr>effects := effects s @ es\<rparr>"

definition setValue :: "string \<Rightarrow> setting \<Rightarrow> plugin \<Rightarrow> plugin" where
  "setValue k v s = s\<lparr>stored := (stored s)(k \<mapsto> v)\<rparr>"

definition setInterval :: "int \<Rightarrow> plugin \<Rightarrow> plugin" where
  "setInterval delay s = s\<lparr>timers := timers s @ [delay]\<rparr>"

subsection \<open>The commands, the timer callback and \<open>setupScheduledSync\<close>\<close>

text \<open>
  \<open>resume t n s\<close>: the host resolves the call that task \<open>n\<close>, which is \<open>t\<close>, waits for,
  and the function runs on to its next \<open>await\<close> or to its end.
\<close>

fun resume :: "task \<Rightarrow> nat \<Rightarrow> plugin \<Rightarrow> plugin option" where
  "resume (AwaitApiKey tr) n s =
     (let apiKey = setting_value (stored s) ''omnivoreApiKey'' in
      if truthy apiKey
      then Some (emit [NewOmnivoreClient apiKey, SyncArticles apiKey]
                   (await n (AwaitSyncArticles tr) s))
      else (case tr of
              Manual \<Rightarrow>
                Some (emit [ConsoleError
                  ''Omnivore API key not set. Please set your API key in the plugin settings.'']
                  (finish n s))
            | Scheduled \<Rightarrow> Some (finish n s)))"
| "resume (AwaitSyncArticles tr) n s = Some (finish n s)"
| "resume AwaitConfirm n s = None"
| "resume AwaitSetLastSyncDate n s =
     Some (await n AwaitSetSyncedItems (setValue ''lastSyncDate'' (SString '''') s))"
| "resume AwaitSetSyncedItems n s =
     Some (await n AwaitSetSyncedHighlights (setValue ''syncedItems'' (SString ''[]'') s))"
| "resume AwaitSetSyncedHighlights n s =
     Some (emit [ConsoleLog ''Omnivore sync data has been reset.'',
                 ShowMessageBox
                   ''Omnivore sync data has been reset. The next sync will fetch all articles and highlights.'']
             (await n AwaitNotice (setValue ''syncedHighlights'' (SString ''{}'') s)))"
| "resume AwaitNotice n s = Some (finish n s)"
| "resume (AwaitInterval starting) n s =
     (let interval = ToNumber (setting_value (stored s) ''syncInterval'');
          s' = (case interval of
                  None \<Rightarrow> s
                | Some i \<Rightarrow> if i > 0 then setInterval (i * 60 * 1000) s else s)
      in Some (if starting then await n AwaitOnChange s' else finish n s'))"
| "resume AwaitOnChange n s =
     Some (emit [ConsoleLog ''Omnivore Sync plugin started'']
             (finish n (s\<lparr>listening := True\<rparr>)))"

fun step :: "event \<Rightarrow> plugin \<Rightarrow> plugin option" where
  "step SyncOmnivoreArticles s = Some (spawn (AwaitApiKey Manual) s)"
| "step ResetOmnivoreSyncData s =
     Some (emit [ShowMessageBox
       ''Are you sure you want to reset the Omnivore sync data? This will clear the last sync date, all synced item IDs, and synced highlights. The next sync will fetch all articles and highlights again.\<newline>\<newline>Press OK to confirm, or Cancel to abort.'']
       (spawn AwaitConfirm s))"
| "step (TimerFires i) s =
     (if i < length (timers s) then Some (spawn (AwaitApiKey Scheduled) s) else None)"
| "step SettingsChanged s =
     (if listening s then Some (spawn (AwaitInterval False) s) else Some s)"
| "step (SettingWritten k v) s = Some (setValue k v s)"
| "step (Resolves n) s = (if n < length (tasks s) then resume (tasks s ! n) n s else None)"
| "step (Answers n r) s =
     (if n < length (tasks s) \<and> tasks s ! n = AwaitConfirm
      then Some (if r = 0 then await n AwaitSetLastSyncDate s
                 else emit [ConsoleLog ''Reset operation cancelled by user.''] (finish n s))
      else None)"
| "step (Rejects n) s = (if n < length (tasks s) then Some (finish n s) else None)"

fun run :: "event list \<Rightarrow> plugin \<Rightarrow> plugin option" where
  "run [] s = Some s"
| "run (e # es) s = (case step e s of None \<Rightarrow> None | Some s' \<Rightarrow> run es s')"

text \<open>
  \<open>onStart\<close> at line 197: the section, the settings, the two commands and the menu items
  are registered, \<open>setupScheduledSync\<close> has been called and waits for the interval, no
  timer exists and the change listener is not registered yet. \<open>persisted\<close> is what the
  store holds from earlier sessions, nothing on a first install.
\<close>

definition onStart :: "settings \<Rightarrow> plugin" where
  "onStart persisted =
     \<lparr>stored = persisted, timers = [], tasks = [AwaitInterval True], listening = False,
      effects = []\<rparr>"

fun is_sync_run :: "task \<Rightarrow> bool" where
  "is_sync_run (AwaitSyncArticles tr) = True"
| "is_sync_run t = False"

definition runs_in_flight :: "plugin \<Rightarrow> nat" where
  "runs_in_flight s = length (filter is_sync_run (tasks s))"

text \<open>
  For the claims about the reset: a task of the reset command that still has a write
  before it; the events that write to the store without the reset command (a write from
  outside, the confirmation of a reset); and the store of a plugin that has never
  synchronised, which holds nothing under the three keys of the sync state.
\<close>

fun reset_writing :: "task \<Rightarrow> bool" where
  "reset_writing AwaitSetLastSyncDate = True"
| "reset_writing AwaitSetSyncedItems = True"
| "reset_writing AwaitSetSyncedHighlights = True"
| "reset_writing t = False"

fun confirms_or_writes :: "event \<Rightarrow> bool" where
  "confirms_or_writes (Answers n r) = (r = 0)"
| "confirms_or_writes (SettingWritten k v) = True"
| "confirms_or_writes e = False"


text \<open>
  For the reset among other calls: the events that write to one of the three keys of the
  sync state from outside the reset command; and what the reset command has written
  already when one of its tasks waits for its second or its third write.
\<close>

fun writes_sync_state :: "event \<Rightarrow> bool" where
  "writes_sync_state (SettingWritten k v) =
     (k = ''lastSyncDate'' \<or> k = ''syncedItems'' \<or> k = ''syncedHighlights'')"
| "writes_sync_state e = False"

fun cleared_for :: "task \<Rightarrow> settings \<Rightarrow> bool" where
  "cleared_for AwaitSetSyncedItems st = (st ''lastSyncDate'' = Some (SString ''''))"
| "cleared_for AwaitSetSyncedHighlights st =
     (st ''lastSyncDate'' = Some (SString '''') \<and> st ''syncedItems'' = Some (SString ''[]''))"
| "cleared_for t st = True"

text \<open>
  For the claim about an interval of zero: the events that leave the interval at zero
  (every event but a write of another value to \<open>syncInterval\<close>), the firing of a timer,
  and the calls a timer has started.
\<close>

fun keeps_interval_zero :: "event \<Rightarrow> bool" where
  "keeps_interval_zero (SettingWritten k v) =
     (k \<noteq> ''syncInterval'' \<or> ToNumber (Some v) = Some 0)"
| "keeps_interval_zero e = True"

fun fires :: "event \<Rightarrow> bool" where
  "fires (TimerFires i) = True"
| "fires e = False"

fun scheduled :: "task \<Rightarrow> bool" where
  "scheduled (AwaitApiKey Scheduled) = True"
| "scheduled (AwaitSyncArticles Scheduled) = True"
| "scheduled t = False"


section \<open>Properties of the heading rule\<close>

subsection \<open>One step of the scan\<close>

lemma remove_remnants_match:
  assumes "take 3 s = [0x5B, 0x5D, 0x28]"
    and "takeWhile (\<lambda>x. x \<noteq> 0x29) (drop 3 s) \<noteq> []"
    and "dropWhile (\<lambda>x. x \<noteq> 0x29) (drop 3 s) \<noteq> []"
  shows "remove_remnants s = remove_remnants (tl (dropWhile (\<lambda>x. x \<noteq> 0x29) (drop 3 s)))"
proof (cases s)
  case Nil
  with assms(1) show ?thesis by simp
next
  case (Cons c cs)
  with assms show ?thesis by simp
qed

lemma remove_remnants_keep:
  assumes "\<not> (take 3 (c # cs) = [0x5B, 0x5D, 0x28]
         \<and> takeWhile (\<lambda>x. x \<noteq> 0x29) (drop 3 (c # cs)) \<noteq> []
         \<and> dropWhile (\<lambda>x. x \<noteq> 0x29) (drop 3 (c # cs)) \<noteq> [])"
  shows "remove_remnants (c # cs) = c # remove_remnants cs"
  using assms by auto

lemma pattern_not_straddling:
  assumes "take 3 (pre @ t) = [0x5B, 0x5D, 0x28 :: 16 word]" and "pre \<noteq> []"
    and "t = [] \<or> hd t = 0x5B"
  shows "3 \<le> length pre"
proof (rule ccontr)
  assume "\<not> 3 \<le> length pre"
  then consider a where "pre = [a]" | a b where "pre = [a, b]"
    using assms(2) by (cases pre; cases "tl pre"; cases "tl (tl pre)") auto
  then show False
  proof cases
    case 1
    with assms(1,3) show False by (cases t) auto
  next
    case 2
    with assms(1,3) show False by (cases t) auto
  qed
qed

subsection \<open>The rule only deletes\<close>

lemma subseq_remove_remnants: "subseq (remove_remnants s) s"
proof (induction s rule: remove_remnants.induct)
  case 1
  show ?case by simp
next
  case (2 c cs)
  let ?d = "dropWhile (\<lambda>x. x \<noteq> 0x29) (drop 3 (c # cs))"
  show ?case
  proof (cases "take 3 (c # cs) = [0x5B, 0x5D, 0x28]
         \<and> takeWhile (\<lambda>x. x \<noteq> 0x29) (drop 3 (c # cs)) \<noteq> [] \<and> ?d \<noteq> []")
    case True
    then have ih: "subseq (remove_remnants (tl ?d)) (tl ?d)"
      using "2.IH"(1) by blast
    have "suffix (tl ?d) (c # cs)"
      by (meson suffix_tl suffix_dropWhile suffix_drop suffix_order.trans)
    then have "subseq (tl ?d) (c # cs)"
      by (rule suffix_imp_subseq)
    with ih have "subseq (remove_remnants (tl ?d)) (c # cs)"
      by (rule subseq_order.trans)
    moreover have "remove_remnants (c # cs) = remove_remnants (tl ?d)"
      using True by (intro remove_remnants_match) auto
    ultimately show ?thesis by simp
  next
    case False
    then have "subseq (remove_remnants cs) cs"
      using "2.IH"(2) by blast
    moreover have "remove_remnants (c # cs) = c # remove_remnants cs"
      using False by (rule remove_remnants_keep)
    ultimately show ?thesis by simp
  qed
qed

subsection \<open>Every occurrence of the pattern is deleted\<close>

lemma dropWhile_remnant:
  assumes "0x29 \<notin> set x"
  shows "dropWhile (\<lambda>c. c \<noteq> 0x29) (remnant x @ post) = 0x29 # post"
proof -
  have split: "remnant x @ post = ([0x5B, 0x5D, 0x28] @ x) @ (0x29 # post)"
    by (simp add: remnant_def)
  have all: "\<And>c. c \<in> set ([0x5B, 0x5D, 0x28] @ x) \<Longrightarrow> c \<noteq> (0x29 :: 16 word)"
    using assms by auto
  show ?thesis
    unfolding split using all by (subst dropWhile_append2) auto
qed

lemma remove_remnants_remnant:
  assumes "x \<noteq> []" and "0x29 \<notin> set x"
  shows "remove_remnants (remnant x @ post) = remove_remnants post"
proof -
  have d: "drop 3 (remnant x @ post) = x @ 0x29 # post"
    by (simp add: remnant_def)
  have all: "\<And>c. c \<in> set x \<Longrightarrow> c \<noteq> (0x29 :: 16 word)"
    using assms(2) by auto
  have tw: "takeWhile (\<lambda>c. c \<noteq> 0x29) (x @ 0x29 # post) = x"
    using all by (subst takeWhile_append2) auto
  have dw: "dropWhile (\<lambda>c. c \<noteq> 0x29) (x @ 0x29 # post) = 0x29 # post"
    using all by (subst dropWhile_append2) auto
  have "remove_remnants (remnant x @ post)
      = remove_remnants (tl (dropWhile (\<lambda>c. c \<noteq> 0x29) (drop 3 (remnant x @ post))))"
  proof (rule remove_remnants_match)
    show "take 3 (remnant x @ post) = [0x5B, 0x5D, 0x28]"
      by (simp add: remnant_def)
    show "takeWhile (\<lambda>c. c \<noteq> 0x29) (drop 3 (remnant x @ post)) \<noteq> []"
      unfolding d tw by (rule assms(1))
    show "dropWhile (\<lambda>c. c \<noteq> 0x29) (drop 3 (remnant x @ post)) \<noteq> []"
      unfolding d dw by simp
  qed
  then show ?thesis
    unfolding d dw by simp
qed

lemma remnant_deleted:
  assumes "x \<noteq> []" and "0x29 \<notin> set x"
  shows "\<exists>u. subseq u pre \<and> remove_remnants (pre @ remnant x @ post) = u @ remove_remnants post"
proof (induction "length pre" arbitrary: pre rule: less_induct)
  case less
  show ?case
  proof (cases pre)
    case Nil
    then show ?thesis
      using remove_remnants_remnant [OF assms] by simp
  next
    case (Cons c cs)
    let ?s = "pre @ remnant x @ post"
    let ?d = "dropWhile (\<lambda>x. x \<noteq> 0x29) (drop 3 ?s)"
    have hd_t: "remnant x @ post = [] \<or> hd (remnant x @ post) = 0x5B"
      by (simp add: remnant_def)
    show ?thesis
    proof (cases "take 3 ?s = [0x5B, 0x5D, 0x28]
         \<and> takeWhile (\<lambda>x. x \<noteq> 0x29) (drop 3 ?s) \<noteq> [] \<and> ?d \<noteq> []")
      case True
      then have step: "remove_remnants ?s = remove_remnants (tl ?d)"
        by (intro remove_remnants_match) auto
      have len: "3 \<le> length pre"
        using True Cons hd_t by (intro pattern_not_straddling [of pre "remnant x @ post"]) auto
      then have d3: "drop 3 ?s = drop 3 pre @ remnant x @ post"
        by simp
      show ?thesis
      proof (cases "0x29 \<in> set (drop 3 pre)")
        case True
        let ?e = "dropWhile (\<lambda>x. x \<noteq> 0x29) (drop 3 pre)"
        have ne: "?e \<noteq> []"
          using True by auto
        have "?d = ?e @ remnant x @ post"
          unfolding d3 using True by (subst dropWhile_append1) auto
        then have tl_d: "tl ?d = tl ?e @ remnant x @ post"
          using ne by simp
        have suf: "suffix (tl ?e) pre"
          by (meson suffix_tl suffix_dropWhile suffix_drop suffix_order.trans)
        have "length ?e \<le> length (drop 3 pre)"
          by (rule length_dropWhile_le)
        then have "length (tl ?e) < length pre"
          using ne len by (cases ?e) auto
        from less [OF this] obtain u where
          u: "subseq u (tl ?e)"
            "remove_remnants (tl ?e @ remnant x @ post) = u @ remove_remnants post"
          by blast
        have "subseq u pre"
          using u(1) suffix_imp_subseq [OF suf] by (rule subseq_order.trans)
        then show ?thesis
          using step tl_d u(2) by auto
      next
        case False
        then have "?d = dropWhile (\<lambda>x. x \<noteq> 0x29) (remnant x @ post)"
          unfolding d3 by (subst dropWhile_append2) auto
        then have "tl ?d = post"
          using dropWhile_remnant [OF assms(2)] by simp
        then have "remove_remnants ?s = [] @ remove_remnants post"
          using step by simp
        then show ?thesis
          by (intro exI [of _ "[]"]) simp
      qed
    next
      case False
      then have "remove_remnants (c # (cs @ remnant x @ post))
          = c # remove_remnants (cs @ remnant x @ post)"
        unfolding Cons by (intro remove_remnants_keep) simp
      moreover have "length cs < length pre"
        using Cons by simp
      from less [OF this] obtain u where
        u: "subseq u cs" "remove_remnants (cs @ remnant x @ post) = u @ remove_remnants post"
        by blast
      ultimately have "remove_remnants ?s = (c # u) @ remove_remnants post"
        using Cons by simp
      moreover have "subseq (c # u) pre"
        using u(1) Cons by simp
      ultimately show ?thesis by blast
    qed
  qed
qed

subsection \<open>Text that is kept\<close>

lemma open_remnant_suffix:
  assumes "suffix ys xs" and "open_remnant ys"
  shows "open_remnant xs"
  using assms
proof (induction xs)
  case Nil
  then show ?case by simp
next
  case (Cons a xs)
  from Cons.prems(1) have "ys = a # xs \<or> suffix ys xs"
    by (simp add: suffix_Cons)
  then show ?case
    using Cons by auto
qed

lemma open_remnant_split:
  assumes "open_remnant pre"
  shows "\<exists>p y. pre = p @ [0x5B, 0x5D, 0x28] @ y \<and> 0x29 \<notin> set y"
  using assms
proof (induction pre)
  case Nil
  then show ?case by simp
next
  case (Cons c cs)
  show ?case
  proof (cases "take 3 (c # cs) = [0x5B, 0x5D, 0x28] \<and> 0x29 \<notin> set (drop 3 (c # cs))")
    case True
    then have "c # cs = [] @ [0x5B, 0x5D, 0x28] @ drop 3 (c # cs)"
      by (metis append_Nil append_take_drop_id)
    with True show ?thesis by blast
  next
    case False
    have "open_remnant cs"
      using False Cons.prems unfolding open_remnant.simps by blast
    with Cons.IH obtain p y where "cs = p @ [0x5B, 0x5D, 0x28] @ y" "0x29 \<notin> set y"
      by blast
    then have "c # cs = (c # p) @ [0x5B, 0x5D, 0x28] @ y \<and> 0x29 \<notin> set y"
      by simp
    then show ?thesis by blast
  qed
qed

lemma remove_remnants_append:
  assumes "\<not> open_remnant pre" and "t = [] \<or> hd t = 0x5B"
  shows "remove_remnants (pre @ t) = remove_remnants pre @ remove_remnants t"
  using assms(1)
proof (induction pre rule: remove_remnants.induct)
  case 1
  show ?case by simp
next
  case (2 c cs)
  let ?p = "c # cs"
  let ?e = "dropWhile (\<lambda>x. x \<noteq> 0x29) (drop 3 ?p)"
  let ?d = "dropWhile (\<lambda>x. x \<noteq> 0x29) (drop 3 (?p @ t))"
  have closed: "take 3 ?p = [0x5B, 0x5D, 0x28] \<Longrightarrow> 0x29 \<in> set (drop 3 ?p)"
    using "2.prems" by auto
  have rest: "\<not> open_remnant cs"
    using "2.prems" by simp
  show ?case
  proof (cases "take 3 (?p @ t) = [0x5B, 0x5D, 0x28]")
    case True
    then have len: "3 \<le> length ?p"
      using assms(2) by (intro pattern_not_straddling [of ?p t]) auto
    then have t3: "take 3 ?p = [0x5B, 0x5D, 0x28]" and d3: "drop 3 (?p @ t) = drop 3 ?p @ t"
      using True by simp_all
    have mem: "0x29 \<in> set (drop 3 ?p)"
      using closed t3 by blast
    then have ne: "?e \<noteq> []"
      by auto
    have dw: "?d = ?e @ t"
      unfolding d3 using mem by (subst dropWhile_append1) auto
    have tw: "takeWhile (\<lambda>x. x \<noteq> 0x29) (drop 3 (?p @ t))
        = takeWhile (\<lambda>x. x \<noteq> 0x29) (drop 3 ?p)"
      unfolding d3 using mem by (subst takeWhile_append1) auto
    show ?thesis
    proof (cases "takeWhile (\<lambda>x. x \<noteq> 0x29) (drop 3 ?p) = []")
      case True
      then have "remove_remnants (c # (cs @ t)) = c # remove_remnants (cs @ t)"
        using tw by (intro remove_remnants_keep) simp
      moreover have "remove_remnants ?p = c # remove_remnants cs"
        using True by (intro remove_remnants_keep) simp
      moreover have "remove_remnants (cs @ t) = remove_remnants cs @ remove_remnants t"
      proof (rule "2.IH"(2))
        show "\<not> (take 3 ?p = [0x5B, 0x5D, 0x28]
           \<and> takeWhile (\<lambda>x. x \<noteq> 0x29) (drop 3 ?p) \<noteq> [] \<and> ?e \<noteq> [])"
          using True by (simp only: not_True_eq_False simp_thms)
        show "\<not> open_remnant cs"
          by (rule rest)
      qed
      ultimately show ?thesis by simp
    next
      case False
      have "remove_remnants (?p @ t) = remove_remnants (tl ?d)"
        using \<open>take 3 (?p @ t) = [0x5B, 0x5D, 0x28]\<close> False tw dw ne
        by (intro remove_remnants_match) auto
      then have l: "remove_remnants (?p @ t) = remove_remnants (tl ?e @ t)"
        using dw ne by simp
      have r: "remove_remnants ?p = remove_remnants (tl ?e)"
        using t3 False ne by (intro remove_remnants_match) auto
      have "suffix (tl ?e) cs"
      proof -
        have "suffix (tl ?e) (drop 3 ?p)"
          by (meson suffix_tl suffix_dropWhile suffix_order.trans)
        moreover have "suffix (drop 3 ?p) cs"
          using suffix_drop [of 2 cs] by simp
        ultimately show ?thesis
          by (rule suffix_order.trans)
      qed
      then have "\<not> open_remnant (tl ?e)"
        using rest open_remnant_suffix by blast
      then have "remove_remnants (tl ?e @ t) = remove_remnants (tl ?e) @ remove_remnants t"
      proof (rule "2.IH"(1) [rotated])
        show "take 3 ?p = [0x5B, 0x5D, 0x28]
           \<and> takeWhile (\<lambda>x. x \<noteq> 0x29) (drop 3 ?p) \<noteq> [] \<and> ?e \<noteq> []"
          using t3 False ne by (intro conjI)
      qed
      with l r show ?thesis by simp
    qed
  next
    case False
    then have "take 3 (c # (cs @ t)) \<noteq> [0x5B, 0x5D, 0x28]"
      by simp
    then have "\<not> (take 3 (c # (cs @ t)) = [0x5B, 0x5D, 0x28]
         \<and> takeWhile (\<lambda>x. x \<noteq> 0x29) (drop 3 (c # (cs @ t))) \<noteq> []
         \<and> dropWhile (\<lambda>x. x \<noteq> 0x29) (drop 3 (c # (cs @ t))) \<noteq> [])"
      by (rule contrapos_nn) (erule conjunct1)
    then have "remove_remnants (c # (cs @ t)) = c # remove_remnants (cs @ t)"
      by (rule remove_remnants_keep)
    moreover have no: "take 3 ?p \<noteq> [0x5B, 0x5D, 0x28]"
    proof
      assume a: "take 3 ?p = [0x5B, 0x5D, 0x28]"
      then have "length (take 3 ?p) = 3"
        by (simp only: list.size length_Cons)
      then have "3 \<le> length ?p"
        by simp
      then have "take 3 (?p @ t) = take 3 ?p"
        by simp
      with a False show False by simp
    qed
    then have keep: "\<not> (take 3 ?p = [0x5B, 0x5D, 0x28]
         \<and> takeWhile (\<lambda>x. x \<noteq> 0x29) (drop 3 ?p) \<noteq> []
         \<and> dropWhile (\<lambda>x. x \<noteq> 0x29) (drop 3 ?p) \<noteq> [])"
      by (rule contrapos_nn) (erule conjunct1)
    then have "remove_remnants ?p = c # remove_remnants cs"
      by (rule remove_remnants_keep)
    moreover have "remove_remnants (cs @ t) = remove_remnants cs @ remove_remnants t"
      using keep rest by (rule "2.IH"(2))
    ultimately show ?thesis by simp
  qed
qed

lemma remove_remnants_empty_parens:
  "remove_remnants (utf16 ''[]()'' @ post) = utf16 ''[]()'' @ remove_remnants post"
  by (simp add: utf16_def)

subsection \<open>Trimming\<close>

lemma trim_ends:
  "trim s = [] \<or> (\<not> is_js_whitespace (hd (trim s)) \<and> \<not> is_js_whitespace (last (trim s)))"
proof (cases "trim s = []")
  case True
  then show ?thesis by simp
next
  case False
  define a where "a = dropWhile is_js_whitespace s"
  define b where "b = dropWhile is_js_whitespace (rev a)"
  have t: "trim s = rev b"
    by (simp add: trim_def a_def b_def)
  have b: "b \<noteq> []"
    using False t by simp
  have "\<not> is_js_whitespace (hd b)"
    using b unfolding b_def by (rule hd_dropWhile)
  then have l: "\<not> is_js_whitespace (last (trim s))"
    using b t by (simp add: last_rev)
  have a: "a \<noteq> []"
    using b unfolding b_def by auto
  have "suffix b (rev a)"
    unfolding b_def by (rule suffix_dropWhile)
  then obtain zs where "rev a = zs @ b"
    by (auto simp: suffix_def)
  then have "last (rev a) = last b"
    using b by simp
  then have "hd (trim s) = hd a"
    using a b t by (simp add: hd_rev last_rev)
  moreover have "\<not> is_js_whitespace (hd a)"
    using a unfolding a_def by (rule hd_dropWhile)
  ultimately show ?thesis
    using l by simp
qed

lemma subseq_trim: "subseq (trim s) s"
proof -
  let ?a = "dropWhile is_js_whitespace s"
  have "suffix (dropWhile is_js_whitespace (rev ?a)) (rev ?a)"
    by (rule suffix_dropWhile)
  then have "prefix (trim s) ?a"
    by (simp add: trim_def suffix_to_prefix)
  then have "subseq (trim s) ?a"
    by (rule prefix_imp_subseq)
  moreover have "subseq ?a s"
    by (rule suffix_imp_subseq) (rule suffix_dropWhile)
  ultimately show ?thesis
    by (rule subseq_order.trans)
qed

lemma dropWhile_keeps_middle:
  assumes "m \<noteq> []" and "\<not> P (hd m)"
  shows "\<exists>a. dropWhile P (x @ m @ y) = a @ m @ y"
proof (cases "\<forall>c \<in> set x. P c")
  case True
  then have "dropWhile P (x @ m @ y) = dropWhile P (m @ y)"
    by (subst dropWhile_append2) auto
  also have "\<dots> = m @ y"
    using assms by (cases m) auto
  finally show ?thesis by (intro exI [of _ "[]"]) simp
next
  case False
  then obtain c where "c \<in> set x" "\<not> P c" by blast
  then have "dropWhile P (x @ m @ y) = dropWhile P x @ m @ y"
    by (subst dropWhile_append1) auto
  then show ?thesis by blast
qed

lemma trim_keeps_middle:
  assumes "m \<noteq> []" and "\<not> is_js_whitespace (hd m)" and "\<not> is_js_whitespace (last m)"
  shows "\<exists>a b. trim (x @ m @ y) = a @ m @ b"
proof -
  obtain a where a: "dropWhile is_js_whitespace (x @ m @ y) = a @ m @ y"
    using dropWhile_keeps_middle [where m = m and P = is_js_whitespace and x = x and y = y]
      assms(1,2) by blast
  have "rev m \<noteq> []" and "\<not> is_js_whitespace (hd (rev m))"
    using assms by (simp_all add: hd_rev)
  then obtain b where
    "dropWhile is_js_whitespace (rev y @ rev m @ rev a) = b @ rev m @ rev a"
    using dropWhile_keeps_middle
      [where m = "rev m" and P = is_js_whitespace and x = "rev y" and y = "rev a"]
    by blast
  then have "trim (x @ m @ y) = a @ m @ rev b"
    by (simp add: trim_def a)
  then show ?thesis by blast
qed

subsection \<open>The number of markers\<close>

lemma hLevel_heading:
  assumes "1 \<le> k" and "k \<le> 6" and "nodeName node = [h, 0x30 + word_of_nat k]"
  shows "hLevel node = Some k"
proof -
  from assms(1,2) consider "k = 1" | "k = 2" | "k = 3" | "k = 4" | "k = 5" | "k = 6"
    by linarith
  then show ?thesis
    by cases (simp_all add: hLevel_def charAt_def Number_def assms(3))
qed

lemma repeat_hash: "repeat (utf16 ''#'') (Some k) = replicate k 0x23"
  by (induction k) (simp_all add: repeat_def utf16_def)


subsection \<open>The rule with its RegExp object returns what the scan returns\<close>

lemma matcher_bounds:
  assumes "matcher s i = Some e"
  shows "i < length s" and "i < e" and "e \<le> length s"
proof -
  let ?rest = "drop (i + 3) s"
  from assms have t: "take 3 (drop i s) = [0x5B, 0x5D, 0x28]"
    and d: "dropWhile (\<lambda>x. x \<noteq> 0x29) ?rest \<noteq> []"
    and e: "e = i + 3 + length (takeWhile (\<lambda>x. x \<noteq> 0x29) ?rest) + 1"
    by (simp_all add: matcher_def split: if_splits)
  from t have "drop i s \<noteq> []"
    by auto
  then show "i < length s"
    by simp
  from e show "i < e"
    by simp
  have "length (takeWhile (\<lambda>x. x \<noteq> 0x29) ?rest) + length (dropWhile (\<lambda>x. x \<noteq> 0x29) ?rest)
      = length ?rest"
    by (simp only: length_append [symmetric] takeWhile_dropWhile_id)
  then have "length (takeWhile (\<lambda>x. x \<noteq> 0x29) ?rest)
      + length (dropWhile (\<lambda>x. x \<noteq> 0x29) ?rest) = length s - (i + 3)"
    by (simp only: length_drop)
  moreover from d have "0 < length (dropWhile (\<lambda>x. x \<noteq> 0x29) ?rest)"
    by (rule iffD2 [OF length_greater_0_conv])
  ultimately have "length (takeWhile (\<lambda>x. x \<noteq> 0x29) ?rest) < length s - (i + 3)"
    by linarith
  with e show "e \<le> length s"
    by linarith
qed

lemma matcher_Some_remove:
  assumes "matcher s i = Some e"
  shows "remove_remnants (drop i s) = remove_remnants (drop e s)"
proof -
  let ?rest = "drop (i + 3) s"
  from assms have t: "take 3 (drop i s) = [0x5B, 0x5D, 0x28]"
    and tw: "takeWhile (\<lambda>x. x \<noteq> 0x29) ?rest \<noteq> []"
    and d: "dropWhile (\<lambda>x. x \<noteq> 0x29) ?rest \<noteq> []"
    and e: "e = i + 3 + length (takeWhile (\<lambda>x. x \<noteq> 0x29) ?rest) + 1"
    by (simp_all add: matcher_def split: if_splits)
  have r: "drop 3 (drop i s) = ?rest"
    by (simp add: add.commute)
  have "tl (dropWhile (\<lambda>x. x \<noteq> 0x29) ?rest)
      = drop (Suc (length (takeWhile (\<lambda>x. x \<noteq> 0x29) ?rest))) ?rest"
    by (simp only: dropWhile_eq_drop tl_drop drop_Suc)
  also have "\<dots> = drop (Suc (length (takeWhile (\<lambda>x. x \<noteq> 0x29) ?rest)) + (i + 3)) s"
    by (simp only: drop_drop)
  also have "Suc (length (takeWhile (\<lambda>x. x \<noteq> 0x29) ?rest)) + (i + 3) = e"
    unfolding e by simp
  finally have "tl (dropWhile (\<lambda>x. x \<noteq> 0x29) ?rest) = drop e s" .
  with remove_remnants_match [of "drop i s"] t tw d show ?thesis
    unfolding r by simp
qed

lemma matcher_None_remove:
  assumes "matcher s i = None" and "i < length s"
  shows "remove_remnants (drop i s) = s ! i # remove_remnants (drop (Suc i) s)"
proof -
  from assms(2) have c: "drop i s = s ! i # drop (Suc i) s"
    by (simp add: Cons_nth_drop_Suc)
  have r: "drop 3 (drop i s) = drop (i + 3) s"
    by (simp add: add.commute)
  from assms(1) have "\<not> (take 3 (drop i s) = [0x5B, 0x5D, 0x28]
      \<and> takeWhile (\<lambda>x. x \<noteq> 0x29) (drop 3 (drop i s)) \<noteq> []
      \<and> dropWhile (\<lambda>x. x \<noteq> 0x29) (drop 3 (drop i s)) \<noteq> [])"
    unfolding r by (simp add: matcher_def split: if_splits)
  then have "remove_remnants (s ! i # drop (Suc i) s)
      = s ! i # remove_remnants (drop (Suc i) s)"
    unfolding c by (rule remove_remnants_keep)
  then show ?thesis
    unfolding c .
qed

lemma scan_None:
  assumes "scan s j = None"
  shows "remove_remnants (drop j s) = drop j s"
  using assms
proof (induction s j rule: scan.induct)
  case (1 s j)
  show ?case
  proof (cases "length s < j")
    case True
    then show ?thesis by simp
  next
    case False
    with "1.prems" have m: "matcher s j = None" and rest: "scan s (Suc j) = None"
      by (simp_all add: scan.simps [of s j] split: option.splits)
    from "1.IH" [OF False m rest] have ih: "remove_remnants (drop (Suc j) s) = drop (Suc j) s" .
    show ?thesis
    proof (cases "j < length s")
      case True
      with matcher_None_remove [OF m True] ih show ?thesis
        by (simp add: Cons_nth_drop_Suc)
    next
      case False
      then show ?thesis by simp
    qed
  qed
qed

lemma scan_Some:
  assumes "scan s j = Some (i, e)"
  shows "j \<le> i \<and> i < e \<and> e \<le> length s
       \<and> remove_remnants (drop j s) = take (i - j) (drop j s) @ remove_remnants (drop e s)"
  using assms
proof (induction s j rule: scan.induct)
  case (1 s j)
  from "1.prems" have le: "\<not> length s < j"
    by (simp add: scan.simps [of s j] split: if_splits)
  show ?case
  proof (cases "matcher s j")
    case None
    with "1.prems" le have rest: "scan s (Suc j) = Some (i, e)"
      by (simp add: scan.simps [of s j])
    from "1.IH" [OF le None rest]
    have ih: "Suc j \<le> i" "i < e" "e \<le> length s"
      "remove_remnants (drop (Suc j) s)
         = take (i - Suc j) (drop (Suc j) s) @ remove_remnants (drop e s)"
      by simp_all
    from ih(1,2,3) have j: "j < length s"
      by simp
    have "take (i - j) (drop j s) = s ! j # take (i - Suc j) (drop (Suc j) s)"
      using ih(1) j by (simp add: Cons_nth_drop_Suc [symmetric] take_Suc_Cons [symmetric]
          Suc_diff_Suc del: take_Suc_Cons)
    with matcher_None_remove [OF None j] ih show ?thesis
      by simp
  next
    case (Some e')
    with "1.prems" le have "i = j" and "e' = e"
      by (simp_all add: scan.simps [of s j])
    with Some matcher_bounds [of s j e] matcher_Some_remove [of s j e] show ?thesis
      by simp
  qed
qed

lemma collect_result:
  assumes "rx < length h"
  shows "collect rx s h
       = (fst (collect rx s h), h[rx := (h ! rx)\<lparr>lastIndex := 0\<rparr>])
       \<and> build s (lastIndex (h ! rx)) (fst (collect rx s h))
           = remove_remnants (drop (lastIndex (h ! rx)) s)"
  using assms
proof (induction rx s h rule: collect.induct)
  case (1 rx s h)
  let ?j = "lastIndex (h ! rx)"
  show ?case
  proof (cases "scan s ?j")
    case None
    then have "collect rx s h = ([], h[rx := (h ! rx)\<lparr>lastIndex := 0\<rparr>])"
      using "1.prems" by (simp add: collect.simps [of rx s h] RegExpBuiltinExec_def)
    with scan_None [OF None] show ?thesis
      by simp
  next
    case (Some m)
    obtain i e where m: "m = (i, e)"
      by (cases m)
    let ?h' = "h[rx := (h ! rx)\<lparr>lastIndex := e\<rparr>]"
    from Some m have sc: "scan s ?j = Some (i, e)"
      by simp
    from scan_Some [OF sc] have b: "?j \<le> i" "i < e" "e \<le> length s"
      and rr: "remove_remnants (drop ?j s) = take (i - ?j) (drop ?j s) @ remove_remnants (drop e s)"
      by simp_all
    have exec: "RegExpBuiltinExec rx s h = (Some (i, e), ?h')"
      using sc by (simp add: RegExpBuiltinExec_def)
    have next_heap: "(if e = i then ?h'[rx := (?h' ! rx)\<lparr>lastIndex := Suc (lastIndex (?h' ! rx))\<rparr>]
        else ?h') = ?h'"
      using b(2) by simp
    have rx': "rx < length ?h'"
      using "1.prems" by simp
    have ih: "collect rx s ?h'
        = (fst (collect rx s ?h'), ?h'[rx := (?h' ! rx)\<lparr>lastIndex := 0\<rparr>])
      \<and> build s (lastIndex (?h' ! rx)) (fst (collect rx s ?h'))
          = remove_remnants (drop (lastIndex (?h' ! rx)) s)"
      using "1.IH" [OF "1.prems" exec [symmetric] refl refl] rx' unfolding next_heap
      by simp
    have step: "collect rx s h
        = (case collect rx s ?h' of (results, h'') \<Rightarrow> ((i, e) # results, h''))"
      using "1.prems" exec next_heap by (simp add: collect.simps [of rx s h])
    have upd: "?h'[rx := (?h' ! rx)\<lparr>lastIndex := 0\<rparr>] = h[rx := (h ! rx)\<lparr>lastIndex := 0\<rparr>]"
      using "1.prems" by simp
    have at: "lastIndex (?h' ! rx) = e"
      using "1.prems" by simp
    from ih have c: "collect rx s ?h' = (fst (collect rx s ?h'), h[rx := (h ! rx)\<lparr>lastIndex := 0\<rparr>])"
      and bd: "build s e (fst (collect rx s ?h')) = remove_remnants (drop e s)"
      unfolding upd at by simp_all
    have "collect rx s h = ((i, e) # fst (collect rx s ?h'), h[rx := (h ! rx)\<lparr>lastIndex := 0\<rparr>])"
      unfolding step by (subst c) simp
    with bd rr b(1) show ?thesis
      by simp
  qed
qed

lemma replace_result:
  assumes "rx < length h"
  shows "replace rx s h = (remove_remnants s, h[rx := (h ! rx)\<lparr>lastIndex := 0\<rparr>])"
proof -
  let ?h0 = "h[rx := (h ! rx)\<lparr>lastIndex := 0\<rparr>]"
  have rx: "rx < length ?h0"
    using assms by simp
  have z: "lastIndex (?h0 ! rx) = 0" and u: "?h0[rx := (?h0 ! rx)\<lparr>lastIndex := 0\<rparr>] = ?h0"
    using assms by simp_all
  from collect_result [OF rx, of s]
  have "collect rx s ?h0 = (fst (collect rx s ?h0), ?h0)"
    and "build s 0 (fst (collect rx s ?h0)) = remove_remnants s"
    unfolding z u by simp_all
  then show ?thesis
    unfolding replace_def by (metis case_prod_conv)
qed

lemma heading_replacement_result:
  "heading_replacement content node options h
     = (replacement content node options, h @ [\<lparr>lastIndex = 0\<rparr>])"
proof -
  have "replace (length h) content (h @ [\<lparr>lastIndex = 0\<rparr>])
      = (remove_remnants content, h @ [\<lparr>lastIndex = 0\<rparr>])"
    using replace_result [of "length h" "h @ [\<lparr>lastIndex = 0\<rparr>]" content] by simp
  then show ?thesis
    by (simp add: heading_replacement_def replacement_def hLevel_def)
qed

lemma invocations_result:
  "invocations calls h
     = (map (\<lambda>(content, name). replacement content \<lparr>nodeName = name\<rparr> ()) calls,
        h @ replicate (length calls) \<lparr>lastIndex = 0\<rparr>)"
proof (induction calls arbitrary: h)
  case Nil
  show ?case by simp
next
  case (Cons c calls)
  obtain content name where c: "c = (content, name)"
    by (cases c)
  show ?case
    unfolding c by (simp add: heading_replacement_result Cons.IH)
qed


section \<open>Properties of the plugin\<close>

subsection \<open>A command from its call to the reading of the API key\<close>

lemma runs_in_flight_started:
  assumes "n < length ts" and "\<not> is_sync_run (ts ! n)"
  shows "length (filter is_sync_run (ts[n := AwaitSyncArticles tr]))
       = Suc (length (filter is_sync_run ts))"
proof -
  have "ts = take n ts @ [ts ! n] @ drop (Suc n) ts"
    using assms(1) by (simp add: id_take_nth_drop)
  then have "length (filter is_sync_run ts)
      = length (filter is_sync_run (take n ts)) + length (filter is_sync_run (drop (Suc n) ts))"
    using assms(2) by (metis append_Nil filter.simps filter_append length_append)
  moreover have "ts[n := AwaitSyncArticles tr]
      = take n ts @ [AwaitSyncArticles tr] @ drop (Suc n) ts"
    using assms(1) by (simp add: upd_conv_take_nth_drop)
  ultimately show ?thesis
    by simp
qed

lemma resume_api_key_set:
  assumes "n < length (tasks s)" and "tasks s ! n = AwaitApiKey tr"
    and "truthy (setting_value (stored s) ''omnivoreApiKey'')"
  shows "step (Resolves n) s
       = Some (emit [NewOmnivoreClient (setting_value (stored s) ''omnivoreApiKey''),
                     SyncArticles (setting_value (stored s) ''omnivoreApiKey'')]
                 (await n (AwaitSyncArticles tr) s))"
  using assms by (simp add: Let_def)

lemma resume_api_key_missing:
  assumes "n < length (tasks s)" and "tasks s ! n = AwaitApiKey tr"
    and "\<not> truthy (setting_value (stored s) ''omnivoreApiKey'')"
  shows "step (Resolves n) s
       = Some (case tr of
                 Manual \<Rightarrow>
                   emit [ConsoleError
                     ''Omnivore API key not set. Please set your API key in the plugin settings.'']
                     (finish n s)
               | Scheduled \<Rightarrow> finish n s)"
  using assms by (cases tr) (simp_all add: Let_def)

lemma run_two:
  assumes "step e s = Some s1" and "step e' s1 = Some s2"
  shows "run [e, e'] s = Some s2"
  using assms by simp

lemma finish_spawned: "finish (length (tasks s)) (spawn t s) = s"
  by (simp add: finish_def spawn_def)

lemma spawned_task:
  "length (tasks s) < length (tasks (spawn t s))"
  "tasks (spawn t s) ! length (tasks s) = t"
  "stored (spawn t s) = stored s"
  by (simp_all add: spawn_def)

lemma in_flight_after_start:
  assumes "n < length (tasks s)" and "tasks s ! n = AwaitApiKey tr"
  shows "runs_in_flight (emit es (await n (AwaitSyncArticles tr) s)) = Suc (runs_in_flight s)"
  using assms runs_in_flight_started [of n "tasks s" tr]
  by (simp add: runs_in_flight_def emit_def await_def)

subsection \<open>The reset command after the confirmation\<close>

lemma reset_confirmed:
  assumes "n < length (tasks s)" and "tasks s ! n = AwaitConfirm"
  shows "run [Answers n 0, Resolves n, Resolves n, Resolves n] s
       = Some (emit [ConsoleLog ''Omnivore sync data has been reset.'',
                     ShowMessageBox
                       ''Omnivore sync data has been reset. The next sync will fetch all articles and highlights.'']
                 (await n AwaitNotice
                   (setValue ''syncedHighlights'' (SString ''{}'')
                     (await n AwaitSetSyncedHighlights
                       (setValue ''syncedItems'' (SString ''[]'')
                         (await n AwaitSetSyncedItems
                           (setValue ''lastSyncDate'' (SString '''')
                             (await n AwaitSetLastSyncDate s))))))))"
  using assms by (simp add: await_def setValue_def)

lemma stored_after_reset:
  "stored (emit es
     (await n AwaitNotice
       (setValue ''syncedHighlights'' (SString ''{}'')
         (await n AwaitSetSyncedHighlights
           (setValue ''syncedItems'' (SString ''[]'')
             (await n AwaitSetSyncedItems
               (setValue ''lastSyncDate'' (SString '''')
                 (await n AwaitSetLastSyncDate s))))))))
   = (stored s)(''lastSyncDate'' \<mapsto> SString '''', ''syncedItems'' \<mapsto> SString ''[]'',
                ''syncedHighlights'' \<mapsto> SString ''{}'')"
  by (simp add: emit_def await_def setValue_def)

lemma tasks_after_reset:
  "tasks (emit es
     (await n AwaitNotice
       (setValue ''syncedHighlights'' (SString ''{}'')
         (await n AwaitSetSyncedHighlights
           (setValue ''syncedItems'' (SString ''[]'')
             (await n AwaitSetSyncedItems
               (setValue ''lastSyncDate'' (SString '''')
                 (await n AwaitSetLastSyncDate s))))))))
   = (tasks s)[n := AwaitNotice]"
  by (simp add: emit_def await_def setValue_def)

subsection \<open>Nothing is written before the confirmation\<close>

lemma list_all_update:
  assumes "list_all P xs" and "P y"
  shows "list_all P (xs[n := y])"
  using assms set_update_subset_insert [of xs n y] by (auto simp: list_all_iff)

lemma list_all_take_drop:
  assumes "list_all P xs"
  shows "list_all P (take n xs)" and "list_all P (drop n xs)"
  using assms by (auto simp: list_all_iff dest: in_set_takeD in_set_dropD)

lemma step_without_confirmation:
  assumes "step e s = Some s'" and "\<not> confirms_or_writes e"
    and "list_all (\<lambda>t. \<not> reset_writing t) (tasks s)"
  shows "stored s' = stored s \<and> list_all (\<lambda>t. \<not> reset_writing t) (tasks s')"
proof (cases e)
  case (Resolves n)
  with assms(1) have n: "n < length (tasks s)" and r: "resume (tasks s ! n) n s = Some s'"
    by (simp_all split: if_splits)
  from n assms(3) have w: "\<not> reset_writing (tasks s ! n)"
    by (simp add: list_all_length)
  show ?thesis
  proof (cases "tasks s ! n")
    case (AwaitApiKey tr)
    with r assms(3) show ?thesis
      by (cases tr)
        (auto simp: Let_def emit_def await_def finish_def list_all_update list_all_take_drop
          split: if_splits)
  next
    case (AwaitInterval starting)
    with r assms(3) show ?thesis
      by (auto simp: Let_def await_def finish_def setInterval_def list_all_update list_all_take_drop
          split: if_splits option.splits)
  qed (use r w assms(3) in
      \<open>auto simp: emit_def await_def finish_def list_all_update list_all_take_drop\<close>)
next
  case (Answers n r)
  with assms show ?thesis
    by (auto simp: emit_def finish_def list_all_take_drop split: if_splits)
qed (use assms in \<open>auto simp: spawn_def emit_def finish_def list_all_take_drop split: if_splits\<close>)

lemma store_unchanged_without_confirmation:
  assumes "run es s = Some s'" and "list_all (\<lambda>e. \<not> confirms_or_writes e) es"
    and "list_all (\<lambda>t. \<not> reset_writing t) (tasks s)"
  shows "stored s' = stored s"
  using assms
proof (induction es arbitrary: s)
  case Nil
  then show ?case by simp
next
  case (Cons e es)
  from Cons.prems(1) obtain s1 where s1: "step e s = Some s1" and rest: "run es s1 = Some s'"
    by (auto split: option.splits)
  from Cons.prems(2) have e: "\<not> confirms_or_writes e"
    and es: "list_all (\<lambda>e. \<not> confirms_or_writes e) es"
    by simp_all
  from step_without_confirmation [OF s1 e Cons.prems(3)]
  have "stored s1 = stored s" and "list_all (\<lambda>t. \<not> reset_writing t) (tasks s1)"
    by simp_all
  with Cons.IH [OF rest es] show ?case
    by simp
qed

subsection \<open>The reset among other calls\<close>

lemma cleared_for_write:
  assumes "cleared_for t st"
    and "k = ''lastSyncDate'' \<Longrightarrow> v = SString ''''"
    and "k = ''syncedItems'' \<Longrightarrow> v = SString ''[]''"
  shows "cleared_for t (st(k \<mapsto> v))"
  using assms by (cases t) auto

lemma all_cleared_for_write:
  assumes "list_all (\<lambda>t. cleared_for t st) ts"
    and "k = ''lastSyncDate'' \<Longrightarrow> v = SString ''''"
    and "k = ''syncedItems'' \<Longrightarrow> v = SString ''[]''"
  shows "list_all (\<lambda>t. cleared_for t (st(k \<mapsto> v))) ts"
  using assms cleared_for_write [of _ st k v] by (simp add: list_all_iff)

lemma cleared_for_not_writing:
  assumes "list_all (\<lambda>t. \<not> reset_writing t) ts"
  shows "list_all (\<lambda>t. cleared_for t st) ts"
proof -
  have "\<not> reset_writing t \<Longrightarrow> cleared_for t st" for t
    by (cases t) simp_all
  with assms show ?thesis
    by (simp add: list_all_iff)
qed

lemma step_keeps_cleared:
  assumes "step e s = Some s'" and "\<not> writes_sync_state e"
    and "list_all (\<lambda>t. cleared_for t (stored s)) (tasks s)"
  shows "list_all (\<lambda>t. cleared_for t (stored s')) (tasks s')"
proof (cases e)
  case (Resolves n)
  with assms(1) have n: "n < length (tasks s)" and r: "resume (tasks s ! n) n s = Some s'"
    by (simp_all split: if_splits)
  from n assms(3) have c: "cleared_for (tasks s ! n) (stored s)"
    by (simp add: list_all_length)
  show ?thesis
  proof (cases "tasks s ! n")
    case (AwaitApiKey tr)
    with r assms(3) show ?thesis
      by (cases tr)
        (auto simp: Let_def emit_def await_def finish_def list_all_update list_all_take_drop
          split: if_splits)
  next
    case (AwaitSyncArticles tr)
    with r assms(3) show ?thesis
      by (auto simp: finish_def list_all_take_drop)
  next
    case AwaitConfirm
    with r show ?thesis by simp
  next
    case AwaitSetLastSyncDate
    have "list_all (\<lambda>t. cleared_for t ((stored s)(''lastSyncDate'' \<mapsto> SString ''''))) (tasks s)"
      using assms(3) by (rule all_cleared_for_write) simp_all
    then have "list_all (\<lambda>t. cleared_for t ((stored s)(''lastSyncDate'' \<mapsto> SString '''')))
        ((tasks s)[n := AwaitSetSyncedItems])"
      by (rule list_all_update) simp
    with AwaitSetLastSyncDate r show ?thesis
      by (auto simp: await_def setValue_def)
  next
    case AwaitSetSyncedItems
    have "list_all (\<lambda>t. cleared_for t ((stored s)(''syncedItems'' \<mapsto> SString ''[]''))) (tasks s)"
      using assms(3) by (rule all_cleared_for_write) simp_all
    moreover have "stored s ''lastSyncDate'' = Some (SString '''')"
      using c AwaitSetSyncedItems by simp
    ultimately have "list_all (\<lambda>t. cleared_for t ((stored s)(''syncedItems'' \<mapsto> SString ''[]'')))
        ((tasks s)[n := AwaitSetSyncedHighlights])"
      by (intro list_all_update) simp_all
    with AwaitSetSyncedItems r show ?thesis
      by (auto simp: await_def setValue_def)
  next
    case AwaitSetSyncedHighlights
    have "list_all (\<lambda>t. cleared_for t ((stored s)(''syncedHighlights'' \<mapsto> SString ''{}'')))
        (tasks s)"
      using assms(3) by (rule all_cleared_for_write) simp_all
    then have "list_all (\<lambda>t. cleared_for t ((stored s)(''syncedHighlights'' \<mapsto> SString ''{}'')))
        ((tasks s)[n := AwaitNotice])"
      by (rule list_all_update) simp
    with AwaitSetSyncedHighlights r show ?thesis
      by (auto simp: emit_def await_def setValue_def)
  next
    case AwaitNotice
    with r assms(3) show ?thesis
      by (auto simp: finish_def list_all_take_drop)
  next
    case (AwaitInterval starting)
    with r assms(3) show ?thesis
      by (auto simp: Let_def await_def finish_def setInterval_def list_all_update
          list_all_take_drop split: if_splits option.splits)
  next
    case AwaitOnChange
    with r assms(3) show ?thesis
      by (auto simp: emit_def finish_def list_all_take_drop)
  qed
next
  case (SettingWritten k v)
  with assms(2) have "k \<noteq> ''lastSyncDate''" and "k \<noteq> ''syncedItems''"
    by simp_all
  then have "list_all (\<lambda>t. cleared_for t ((stored s)(k \<mapsto> v))) (tasks s)"
    using assms(3) by (intro all_cleared_for_write) simp_all
  with SettingWritten assms(1) show ?thesis
    by (auto simp: setValue_def)
next
  case (Answers n r)
  with assms show ?thesis
    by (auto simp: emit_def await_def finish_def list_all_update list_all_take_drop
        split: if_splits)
next
  case (Rejects n)
  with assms show ?thesis
    by (auto simp: finish_def list_all_take_drop split: if_splits)
qed (use assms in \<open>auto simp: spawn_def emit_def split: if_splits\<close>)

lemma run_keeps_cleared:
  assumes "run es s = Some s'" and "list_all (\<lambda>e. \<not> writes_sync_state e) es"
    and "list_all (\<lambda>t. cleared_for t (stored s)) (tasks s)"
  shows "list_all (\<lambda>t. cleared_for t (stored s')) (tasks s')"
  using assms
proof (induction es arbitrary: s)
  case Nil
  then show ?case by simp
next
  case (Cons e es)
  from Cons.prems(1) obtain s1 where s1: "step e s = Some s1" and rest: "run es s1 = Some s'"
    by (auto split: option.splits)
  from Cons.prems(2) have e: "\<not> writes_sync_state e"
    and es: "list_all (\<lambda>e. \<not> writes_sync_state e) es"
    by simp_all
  from step_keeps_cleared [OF s1 e Cons.prems(3)] Cons.IH [OF rest es] show ?case
    by simp
qed

lemma third_write_completes_reset:
  assumes "run es s0 = Some s" and "list_all (\<lambda>e. \<not> writes_sync_state e) es"
    and "list_all (\<lambda>t. \<not> reset_writing t) (tasks s0)"
    and "n < length (tasks s)" and "tasks s ! n = AwaitSetSyncedHighlights"
  shows "\<exists>s'. step (Resolves n) s = Some s'
       \<and> stored s'
           = (stored s)(''lastSyncDate'' \<mapsto> SString '''', ''syncedItems'' \<mapsto> SString ''[]'',
                        ''syncedHighlights'' \<mapsto> SString ''{}'')
       \<and> tasks s' = (tasks s)[n := AwaitNotice]"
proof -
  have "list_all (\<lambda>t. cleared_for t (stored s0)) (tasks s0)"
    using assms(3) by (rule cleared_for_not_writing)
  with assms(1,2) have "list_all (\<lambda>t. cleared_for t (stored s)) (tasks s)"
    by (rule run_keeps_cleared)
  with assms(4,5) have c: "stored s ''lastSyncDate'' = Some (SString '''')"
    "stored s ''syncedItems'' = Some (SString ''[]'')"
    by (auto simp: list_all_length)
  have "(stored s)(''syncedHighlights'' \<mapsto> SString ''{}'')
      = (stored s)(''lastSyncDate'' \<mapsto> SString '''', ''syncedItems'' \<mapsto> SString ''[]'',
                   ''syncedHighlights'' \<mapsto> SString ''{}'')"
    using c by (auto simp: fun_eq_iff)
  then show ?thesis
    using assms(4,5) by (simp add: emit_def await_def setValue_def)
qed

subsection \<open>A session whose interval is zero\<close>

lemma step_interval_zero:
  assumes "step e s = Some s'" and "keeps_interval_zero e"
    and "timers s = []"
    and "ToNumber (setting_value (stored s) ''syncInterval'') = Some 0"
    and "list_all (\<lambda>t. \<not> scheduled t) (tasks s)"
  shows "timers s' = []
       \<and> ToNumber (setting_value (stored s') ''syncInterval'') = Some 0
       \<and> list_all (\<lambda>t. \<not> scheduled t) (tasks s')
       \<and> \<not> fires e"
proof (cases e)
  case (Resolves n)
  with assms(1) have n: "n < length (tasks s)" and r: "resume (tasks s ! n) n s = Some s'"
    by (simp_all split: if_splits)
  from n assms(5) have w: "\<not> scheduled (tasks s ! n)"
    by (simp add: list_all_length)
  have e: "\<not> fires e"
    using Resolves by simp
  show ?thesis
  proof (cases "tasks s ! n")
    case (AwaitApiKey tr)
    with w have "tr = Manual"
      by (cases tr) simp_all
    with AwaitApiKey r assms(3,4,5) e show ?thesis
      by (auto simp: Let_def emit_def await_def finish_def list_all_update list_all_take_drop
          split: if_splits)
  next
    case (AwaitSyncArticles tr)
    with r assms(3,4,5) e show ?thesis
      by (auto simp: finish_def list_all_take_drop)
  next
    case AwaitConfirm
    with r show ?thesis by simp
  next
    case AwaitSetLastSyncDate
    with r assms(3,4,5) e show ?thesis
      by (auto simp: await_def setValue_def setting_value_def list_all_update)
  next
    case AwaitSetSyncedItems
    with r assms(3,4,5) e show ?thesis
      by (auto simp: await_def setValue_def setting_value_def list_all_update)
  next
    case AwaitSetSyncedHighlights
    with r assms(3,4,5) e show ?thesis
      by (auto simp: emit_def await_def setValue_def setting_value_def list_all_update)
  next
    case AwaitNotice
    with r assms(3,4,5) e show ?thesis
      by (auto simp: finish_def list_all_take_drop)
  next
    case (AwaitInterval starting)
    with r assms(3,4,5) e show ?thesis
      by (auto simp: Let_def await_def finish_def list_all_update list_all_take_drop)
  next
    case AwaitOnChange
    with r assms(3,4,5) e show ?thesis
      by (auto simp: emit_def finish_def list_all_take_drop)
  qed
next
  case (SettingWritten k v)
  with assms show ?thesis
    by (auto simp: setValue_def setting_value_def)
next
  case (TimerFires i)
  with assms(1,3) show ?thesis
    by simp
next
  case (Answers n r)
  with assms show ?thesis
    by (auto simp: emit_def await_def finish_def list_all_update list_all_take_drop
        split: if_splits)
next
  case (Rejects n)
  with assms show ?thesis
    by (auto simp: finish_def list_all_take_drop split: if_splits)
qed (use assms in \<open>auto simp: spawn_def emit_def split: if_splits\<close>)

lemma run_interval_zero:
  assumes "run es s = Some s'" and "list_all keeps_interval_zero es"
    and "timers s = []"
    and "ToNumber (setting_value (stored s) ''syncInterval'') = Some 0"
    and "list_all (\<lambda>t. \<not> scheduled t) (tasks s)"
  shows "timers s' = [] \<and> list_all (\<lambda>t. \<not> scheduled t) (tasks s')
       \<and> list_all (\<lambda>e. \<not> fires e) es"
  using assms
proof (induction es arbitrary: s)
  case Nil
  then show ?case by simp
next
  case (Cons e es)
  from Cons.prems(1) obtain s1 where s1: "step e s = Some s1" and rest: "run es s1 = Some s'"
    by (auto split: option.splits)
  from Cons.prems(2) have e: "keeps_interval_zero e" and es: "list_all keeps_interval_zero es"
    by simp_all
  from step_interval_zero [OF s1 e Cons.prems(3,4,5)]
  have inv: "timers s1 = []" "ToNumber (setting_value (stored s1) ''syncInterval'') = Some 0"
    "list_all (\<lambda>t. \<not> scheduled t) (tasks s1)" and quiet: "\<not> fires e"
    by simp_all
  from Cons.IH [OF rest es inv] quiet show ?case
    by simp
qed

text \<open>
  When the configured interval is zero all along (it reads as zero when the plugin starts,
  and whatever is written to it afterwards reads as zero), no recurring timer is ever
  created, no timer fires anywhere in the session, no call is waiting or in flight that a
  timer started, and no timer can fire next: runs start from the manual command only.
\<close>

lemma interval_zero_schedules_nothing:
  assumes "ToNumber (setting_value persisted ''syncInterval'') = Some 0"
    and "list_all keeps_interval_zero es"
    and "run es (onStart persisted) = Some s"
  shows "timers s = []
       \<and> list_all (\<lambda>e. \<not> fires e) es
       \<and> list_all (\<lambda>t. \<not> scheduled t) (tasks s)
       \<and> step (TimerFires i) s = None"
proof -
  have "timers (onStart persisted) = []"
    and "ToNumber (setting_value (stored (onStart persisted)) ''syncInterval'') = Some 0"
    and "list_all (\<lambda>t. \<not> scheduled t) (tasks (onStart persisted))"
    using assms(1) by (simp_all add: onStart_def)
  with assms(3,2) have "timers s = [] \<and> list_all (\<lambda>t. \<not> scheduled t) (tasks s)
      \<and> list_all (\<lambda>e. \<not> fires e) es"
    by (rule run_interval_zero)
  then show ?thesis
    by simp
qed

text \<open>
  On a first install: the plugin starts, the operator enters a key, the host reports the
  change, and the operator runs the command. The interval is the registered \<open>'0'\<close> all
  along, and the only run in flight is the manual one.
\<close>

lemma interval_zero_on_first_install:
  "ToNumber (setting_value Map.empty ''syncInterval'') = Some 0
   \<and> list_all keeps_interval_zero
        [Resolves 0, Resolves 0, SettingWritten ''omnivoreApiKey'' (SString ''key''),
         SettingsChanged, Resolves 0, SyncOmnivoreArticles, Resolves 0]
   \<and> (\<exists>s. run [Resolves 0, Resolves 0, SettingWritten ''omnivoreApiKey'' (SString ''key''),
              SettingsChanged, Resolves 0, SyncOmnivoreArticles, Resolves 0]
             (onStart Map.empty) = Some s
          \<and> timers s = [] \<and> tasks s = [AwaitSyncArticles Manual]
          \<and> step (TimerFires 0) s = None)"
proof -
  let ?es = "[Resolves 0, Resolves 0, SettingWritten ''omnivoreApiKey'' (SString ''key''),
              SettingsChanged, Resolves 0, SyncOmnivoreArticles, Resolves 0]"
  have z: "ToNumber (setting_value Map.empty ''syncInterval'') = Some 0"
    by (simp add: setting_value_def registerSettings_def is_digit_def decimal_def)
  have k: "list_all keeps_interval_zero ?es"
    by simp
  have t: "map_option tasks (run ?es (onStart Map.empty)) = Some [AwaitSyncArticles Manual]"
    by code_simp
  then obtain s where s: "run ?es (onStart Map.empty) = Some s"
    and ts: "tasks s = [AwaitSyncArticles Manual]"
    by auto
  from interval_zero_schedules_nothing [OF z k s, of 0]
  have "timers s = []" and "step (TimerFires 0) s = None"
    by simp_all
  with z k s ts show ?thesis
    by blast
qed


section \<open>The claims\<close>

text \<open>
  Claim C1, as amended. The file keeps no record of a run in progress and checks for
  none. Whenever the API key read is not empty, a call that has read it constructs a
  client and calls \<open>syncArticles\<close>, and one more run is in flight, whatever the number
  before; so does every firing of a timer and every call of the manual command,
  taken from the trigger to the reading of the key. A trigger is skipped only when the key
  is empty.
\<close>

theorem every_trigger_starts_a_run:
  assumes "truthy (setting_value (stored s) ''omnivoreApiKey'')"
  shows "(n < length (tasks s) \<and> tasks s ! n = AwaitApiKey tr \<longrightarrow>
            (\<exists>s'. step (Resolves n) s = Some s'
               \<and> runs_in_flight s' = Suc (runs_in_flight s)))
       \<and> (i < length (timers s) \<longrightarrow>
            (\<exists>s'. run [TimerFires i, Resolves (length (tasks s))] s = Some s'
               \<and> runs_in_flight s' = Suc (runs_in_flight s)
               \<and> effects s'
                   = effects s @ [NewOmnivoreClient (setting_value (stored s) ''omnivoreApiKey''),
                                  SyncArticles (setting_value (stored s) ''omnivoreApiKey'')]))
       \<and> (\<exists>s'. run [SyncOmnivoreArticles, Resolves (length (tasks s))] s = Some s'
               \<and> runs_in_flight s' = Suc (runs_in_flight s)
               \<and> effects s'
                   = effects s @ [NewOmnivoreClient (setting_value (stored s) ''omnivoreApiKey''),
                                  SyncArticles (setting_value (stored s) ''omnivoreApiKey'')])"
proof -
  have started: "\<exists>s'. step (Resolves (length (tasks s))) (spawn (AwaitApiKey tr') s) = Some s'
      \<and> runs_in_flight s' = Suc (runs_in_flight s)
      \<and> effects s' = effects s @ [NewOmnivoreClient (setting_value (stored s) ''omnivoreApiKey''),
                                  SyncArticles (setting_value (stored s) ''omnivoreApiKey'')]"
    for tr'
  proof -
    let ?s1 = "spawn (AwaitApiKey tr') s"
    let ?n = "length (tasks s)"
    have n: "?n < length (tasks ?s1)" and t: "tasks ?s1 ! ?n = AwaitApiKey tr'"
      and k: "truthy (setting_value (stored ?s1) ''omnivoreApiKey'')"
      using assms by (simp_all add: spawned_task)
    let ?s2 = "emit [NewOmnivoreClient (setting_value (stored ?s1) ''omnivoreApiKey''),
                     SyncArticles (setting_value (stored ?s1) ''omnivoreApiKey'')]
                 (await ?n (AwaitSyncArticles tr') ?s1)"
    have "step (Resolves ?n) ?s1 = Some ?s2"
      using n t k by (rule resume_api_key_set)
    moreover have "runs_in_flight ?s2 = Suc (runs_in_flight ?s1)"
      using n t by (rule in_flight_after_start)
    moreover have "runs_in_flight ?s1 = runs_in_flight s"
      by (simp add: runs_in_flight_def spawn_def)
    moreover have "effects ?s2
        = effects s @ [NewOmnivoreClient (setting_value (stored s) ''omnivoreApiKey''),
                       SyncArticles (setting_value (stored s) ''omnivoreApiKey'')]"
      by (simp add: emit_def await_def spawn_def)
    ultimately show ?thesis
      by (simp only: spawned_task) blast
  qed
  show ?thesis
  proof (intro conjI impI)
    assume a: "n < length (tasks s) \<and> tasks s ! n = AwaitApiKey tr"
    let ?s' = "emit [NewOmnivoreClient (setting_value (stored s) ''omnivoreApiKey''),
                     SyncArticles (setting_value (stored s) ''omnivoreApiKey'')]
                 (await n (AwaitSyncArticles tr) s)"
    have "step (Resolves n) s = Some ?s'"
      using a assms by (intro resume_api_key_set) simp_all
    moreover have "runs_in_flight ?s' = Suc (runs_in_flight s)"
      using a by (intro in_flight_after_start) simp_all
    ultimately show "\<exists>s'. step (Resolves n) s = Some s'
        \<and> runs_in_flight s' = Suc (runs_in_flight s)"
      by blast
  next
    assume "i < length (timers s)"
    then have fires: "step (TimerFires i) s = Some (spawn (AwaitApiKey Scheduled) s)"
      by simp
    obtain s' where s': "step (Resolves (length (tasks s))) (spawn (AwaitApiKey Scheduled) s) = Some s'"
      "runs_in_flight s' = Suc (runs_in_flight s)"
      "effects s' = effects s @ [NewOmnivoreClient (setting_value (stored s) ''omnivoreApiKey''),
                                 SyncArticles (setting_value (stored s) ''omnivoreApiKey'')]"
      using started [of Scheduled] by blast
    have "run [TimerFires i, Resolves (length (tasks s))] s = Some s'"
      using fires s'(1) by (rule run_two)
    with s'(2,3) show "\<exists>s'. run [TimerFires i, Resolves (length (tasks s))] s = Some s'
        \<and> runs_in_flight s' = Suc (runs_in_flight s)
        \<and> effects s'
            = effects s @ [NewOmnivoreClient (setting_value (stored s) ''omnivoreApiKey''),
                           SyncArticles (setting_value (stored s) ''omnivoreApiKey'')]"
      by blast
  next
    have called: "step SyncOmnivoreArticles s = Some (spawn (AwaitApiKey Manual) s)"
      by simp
    obtain s' where s': "step (Resolves (length (tasks s))) (spawn (AwaitApiKey Manual) s) = Some s'"
      "runs_in_flight s' = Suc (runs_in_flight s)"
      "effects s' = effects s @ [NewOmnivoreClient (setting_value (stored s) ''omnivoreApiKey''),
                                 SyncArticles (setting_value (stored s) ''omnivoreApiKey'')]"
      using started [of Manual] by blast
    have "run [SyncOmnivoreArticles, Resolves (length (tasks s))] s = Some s'"
      using called s'(1) by (rule run_two)
    with s'(2,3) show "\<exists>s'. run [SyncOmnivoreArticles, Resolves (length (tasks s))] s = Some s'
        \<and> runs_in_flight s' = Suc (runs_in_flight s)
        \<and> effects s'
            = effects s @ [NewOmnivoreClient (setting_value (stored s) ''omnivoreApiKey''),
                           SyncArticles (setting_value (stored s) ''omnivoreApiKey'')]"
      by blast
  qed
qed

text \<open>
  The theorem on a plugin with a key, one timer, and one manual run in flight already:
  the timer fires, and a second run is in flight.
\<close>

theorem every_trigger_starts_a_run_witness:
  "truthy (setting_value
      (stored \<lparr>stored = [''omnivoreApiKey'' \<mapsto> SString ''key''], timers = [300000],
               tasks = [AwaitSyncArticles Manual], listening = True, effects = []\<rparr>)
      ''omnivoreApiKey'')
   \<and> (0::nat) < length (timers \<lparr>stored = [''omnivoreApiKey'' \<mapsto> SString ''key''],
          timers = [300000], tasks = [AwaitSyncArticles Manual], listening = True,
          effects = []\<rparr>)
   \<and> runs_in_flight \<lparr>stored = [''omnivoreApiKey'' \<mapsto> SString ''key''], timers = [300000],
        tasks = [AwaitSyncArticles Manual], listening = True, effects = []\<rparr> = 1
   \<and> (\<exists>s'. run [TimerFires 0, Resolves 1]
             \<lparr>stored = [''omnivoreApiKey'' \<mapsto> SString ''key''], timers = [300000],
              tasks = [AwaitSyncArticles Manual], listening = True, effects = []\<rparr> = Some s'
          \<and> runs_in_flight s' = Suc 1)
   \<and> (\<exists>s'. step (Resolves 1)
             \<lparr>stored = [''omnivoreApiKey'' \<mapsto> SString ''key''], timers = [300000],
              tasks = [AwaitSyncArticles Manual, AwaitApiKey Scheduled], listening = True,
              effects = []\<rparr> = Some s'
          \<and> runs_in_flight s' = Suc 1)"
proof -
  let ?s = "\<lparr>stored = [''omnivoreApiKey'' \<mapsto> SString ''key''], timers = [300000],
             tasks = [AwaitSyncArticles Manual], listening = True, effects = []\<rparr>"
  let ?t = "\<lparr>stored = [''omnivoreApiKey'' \<mapsto> SString ''key''], timers = [300000],
             tasks = [AwaitSyncArticles Manual, AwaitApiKey Scheduled], listening = True,
             effects = []\<rparr>"
  have h: "truthy (setting_value (stored ?s) ''omnivoreApiKey'')"
    and h': "truthy (setting_value (stored ?t) ''omnivoreApiKey'')"
    by (simp_all add: setting_value_def)
  have i: "(0::nat) < length (timers ?s)"
    by simp
  have l: "length (tasks ?s) = 1"
    by simp
  have f: "runs_in_flight ?s = 1" and f': "runs_in_flight ?t = 1"
    by (simp_all add: runs_in_flight_def)
  have n: "(1::nat) < length (tasks ?t) \<and> tasks ?t ! 1 = AwaitApiKey Scheduled"
    by simp
  have "\<exists>s'. run [TimerFires 0, Resolves 1] ?s = Some s' \<and> runs_in_flight s' = Suc 1"
    using every_trigger_starts_a_run [OF h, of 0 Manual 0, unfolded l f] i by blast
  moreover have "\<exists>s'. step (Resolves 1) ?t = Some s' \<and> runs_in_flight s' = Suc 1"
    using every_trigger_starts_a_run [OF h', of 1 Scheduled 0, unfolded f'] n by blast
  ultimately show ?thesis
    using h i f by blast
qed

text \<open>
  Claim C1 as stated fails. The plugin starts with a key and an interval of five minutes,
  and the first call of \<open>setupScheduledSync\<close> creates the timer. The operator runs the
  command, and the run starts. While it is in flight the timer fires: the callback reads
  the key, constructs a second client and calls \<open>syncArticles\<close> again. Two runs are in
  flight.
\<close>

theorem two_runs_in_flight:
  "map_option (\<lambda>s. (tasks s, runs_in_flight s, effects s))
     (run [Resolves 0, Resolves 0, SyncOmnivoreArticles, Resolves 0, TimerFires 0, Resolves 1]
        (onStart [''syncInterval'' \<mapsto> SNumber 5, ''omnivoreApiKey'' \<mapsto> SString ''key'']))
   = Some ([AwaitSyncArticles Manual, AwaitSyncArticles Scheduled], 2,
           [ConsoleLog ''Omnivore Sync plugin started'',
            NewOmnivoreClient (Some (SString ''key'')), SyncArticles (Some (SString ''key'')),
            NewOmnivoreClient (Some (SString ''key'')), SyncArticles (Some (SString ''key''))])"
  by code_simp

text \<open>
  Claim C2 fails on the code. \<open>setupScheduledSync\<close> runs again on every change of the
  settings, reads the interval and creates a timer for it, but nothing removes the timer
  it created before: the source keeps no handle of a timer and never calls
  \<open>clearInterval\<close>. The plugin starts with an interval of five minutes and a key; the
  operator sets ten, and the host reports the change. Both timers exist, and the one of
  five minutes fires and starts a run.
\<close>

theorem old_timer_survives_new_interval:
  "map_option timers
     (run [Resolves 0, Resolves 0,
           SettingWritten ''syncInterval'' (SNumber 10), SettingsChanged, Resolves 0]
        (onStart [''syncInterval'' \<mapsto> SNumber 5, ''omnivoreApiKey'' \<mapsto> SString ''key'']))
   = Some [300000, 600000]
   \<and> map_option (\<lambda>s. (timers s, tasks s))
     (run [Resolves 0, Resolves 0,
           SettingWritten ''syncInterval'' (SNumber 10), SettingsChanged, Resolves 0,
           TimerFires 0, Resolves 0]
        (onStart [''syncInterval'' \<mapsto> SNumber 5, ''omnivoreApiKey'' \<mapsto> SString ''key'']))
   = Some ([300000, 600000], [AwaitSyncArticles Scheduled])"
  by code_simp

text \<open>
  Claim C3, as amended. For a heading element of level \<open>k\<close> from 1 to 6 (a node whose
  name is one character followed by the digit \<open>k\<close>, as \<open>H1\<close> to \<open>H6\<close>), the rule
  returns two line feeds, exactly \<open>k\<close> characters \<open>#\<close>, one space, the cleaned and trimmed
  content, and two line feeds. The cleaned and trimmed content is what one pass of the
  removal leaves of the content, without white space at either end (so the space after
  the markers is a single one); it is made of characters of the content, in their order.
  That no link syntax remains is not part of the statement: it does not hold.
\<close>

theorem heading_shape:
  assumes "1 \<le> k" and "k \<le> 6" and "nodeName node = [h, 0x30 + word_of_nat k]"
  shows "replacement content node options
           = utf16 ''\<newline>\<newline>'' @ replicate k 0x23 @ [0x20]
               @ trim (remove_remnants content) @ utf16 ''\<newline>\<newline>''
       \<and> subseq (trim (remove_remnants content)) content
       \<and> (trim (remove_remnants content) = []
          \<or> (\<not> is_js_whitespace (hd (trim (remove_remnants content)))
             \<and> \<not> is_js_whitespace (last (trim (remove_remnants content)))))"
proof (intro conjI)
  show "replacement content node options
           = utf16 ''\<newline>\<newline>'' @ replicate k 0x23 @ [0x20]
               @ trim (remove_remnants content) @ utf16 ''\<newline>\<newline>''"
    unfolding replacement_def hLevel_heading [OF assms] repeat_hash
    by (simp add: utf16_def)
  show "subseq (trim (remove_remnants content)) content"
    using subseq_trim subseq_remove_remnants by (rule subseq_order.trans)
  show "trim (remove_remnants content) = []
          \<or> (\<not> is_js_whitespace (hd (trim (remove_remnants content)))
             \<and> \<not> is_js_whitespace (last (trim (remove_remnants content))))"
    by (rule trim_ends)
qed

text \<open>
  The theorem at a node named \<open>H2\<close> and the content \<open>" Install [](#install) "\<close>.
\<close>

theorem heading_shape_witness:
  "(1::nat) \<le> 2 \<and> (2::nat) \<le> 6
   \<and> nodeName \<lparr>nodeName = utf16 ''H2''\<rparr> = [0x48, 0x30 + word_of_nat 2]
   \<and> replacement (utf16 '' Install [](#install) '') \<lparr>nodeName = utf16 ''H2''\<rparr> ()
       = utf16 ''\<newline>\<newline>'' @ utf16 ''## Install'' @ utf16 ''\<newline>\<newline>''
   \<and> subseq (utf16 ''Install'') (utf16 '' Install [](#install) '')"
proof -
  have n: "nodeName \<lparr>nodeName = utf16 ''H2''\<rparr> = [0x48, 0x30 + word_of_nat 2]"
    by (simp add: utf16_def)
  have b: "trim (remove_remnants (utf16 '' Install [](#install) '')) = utf16 ''Install''"
    by code_simp
  have le: "(1::nat) \<le> 2" "(2::nat) \<le> 6"
    by simp_all
  show ?thesis
    using heading_shape [OF le n, of "utf16 '' Install [](#install) ''" "()"] n
    unfolding b by (simp add: utf16_def numeral_2_eq_2)
qed

text \<open>
  Claim C3 as stated fails where it says that no stray link syntax remains. The content
  \<open>"Notes []()"\<close> comes out with its \<open>[]()\<close>, which the pattern does not match; and
  from \<open>"[][](a)(b)"\<close> the pass removes \<open>[](a)\<close> and leaves \<open>[](b)\<close>, which is put
  together only by the removal and is not looked at again.
\<close>

theorem heading_keeps_link_syntax:
  "replacement (utf16 ''Notes []()'') \<lparr>nodeName = utf16 ''H1''\<rparr> ()
     = utf16 ''\<newline>\<newline>'' @ utf16 ''# Notes []()'' @ utf16 ''\<newline>\<newline>''
   \<and> sublist (utf16 ''[]()'')
        (replacement (utf16 ''Notes []()'') \<lparr>nodeName = utf16 ''H1''\<rparr> ())
   \<and> replacement (utf16 ''[][](a)(b)'') \<lparr>nodeName = utf16 ''H1''\<rparr> ()
     = utf16 ''\<newline>\<newline>'' @ utf16 ''# [](b)'' @ utf16 ''\<newline>\<newline>''"
  by code_simp

text \<open>
  Claim C4. When the API key is absent (the value read is empty: never written, or
  written as the empty string), the manual command, from its call to the reading of the
  key, leaves the plugin as it was but for one error message on the console: no client
  is constructed, \<open>syncArticles\<close> is not called, no call is left waiting. The same holds
  for the reading alone, whatever has happened since the command was called.
\<close>

theorem manual_sync_without_api_key:
  assumes "\<not> truthy (setting_value (stored s) ''omnivoreApiKey'')"
  shows "run [SyncOmnivoreArticles, Resolves (length (tasks s))] s
           = Some (emit [ConsoleError
               ''Omnivore API key not set. Please set your API key in the plugin settings.''] s)
       \<and> (n < length (tasks s) \<and> tasks s ! n = AwaitApiKey Manual \<longrightarrow>
            step (Resolves n) s
              = Some (emit [ConsoleError
                  ''Omnivore API key not set. Please set your API key in the plugin settings.'']
                  (finish n s)))"
proof (intro conjI impI)
  let ?s1 = "spawn (AwaitApiKey Manual) s"
  have "\<not> truthy (setting_value (stored ?s1) ''omnivoreApiKey'')"
    using assms by (simp add: spawned_task)
  then have "step (Resolves (length (tasks s))) ?s1
      = Some (emit [ConsoleError
          ''Omnivore API key not set. Please set your API key in the plugin settings.'']
          (finish (length (tasks s)) ?s1))"
    using resume_api_key_missing [of "length (tasks s)" ?s1 Manual]
      spawned_task [where s = s and t = "AwaitApiKey Manual"]
    by simp
  then show "run [SyncOmnivoreArticles, Resolves (length (tasks s))] s
      = Some (emit [ConsoleError
          ''Omnivore API key not set. Please set your API key in the plugin settings.''] s)"
    by (simp add: finish_spawned)
next
  assume "n < length (tasks s) \<and> tasks s ! n = AwaitApiKey Manual"
  then show "step (Resolves n) s
      = Some (emit [ConsoleError
          ''Omnivore API key not set. Please set your API key in the plugin settings.'']
          (finish n s))"
    using resume_api_key_missing [of n s Manual] assms by simp
qed

text \<open>The theorem on a first install, where no key has been written.\<close>

theorem manual_sync_without_api_key_witness:
  "\<not> truthy (setting_value (stored (onStart Map.empty)) ''omnivoreApiKey'')
   \<and> run [SyncOmnivoreArticles, Resolves (length (tasks (onStart Map.empty)))] (onStart Map.empty)
       = Some (emit [ConsoleError
           ''Omnivore API key not set. Please set your API key in the plugin settings.'']
           (onStart Map.empty))
   \<and> \<not> truthy (setting_value
          (stored \<lparr>stored = Map.empty, timers = [], tasks = [AwaitApiKey Manual],
                   listening = True, effects = []\<rparr>) ''omnivoreApiKey'')
   \<and> (0::nat) < length (tasks \<lparr>stored = Map.empty, timers = [],
          tasks = [AwaitApiKey Manual], listening = True, effects = []\<rparr>)
   \<and> tasks \<lparr>stored = Map.empty, timers = [], tasks = [AwaitApiKey Manual],
          listening = True, effects = []\<rparr> ! 0 = AwaitApiKey Manual
   \<and> step (Resolves 0)
        \<lparr>stored = Map.empty, timers = [], tasks = [AwaitApiKey Manual], listening = True,
         effects = []\<rparr>
       = Some \<lparr>stored = Map.empty, timers = [], tasks = [], listening = True,
               effects = [ConsoleError
                 ''Omnivore API key not set. Please set your API key in the plugin settings.'']\<rparr>"
proof -
  let ?waiting = "\<lparr>stored = Map.empty, timers = [], tasks = [AwaitApiKey Manual],
                   listening = True, effects = []\<rparr>"
  have h: "\<not> truthy (setting_value (stored (onStart Map.empty)) ''omnivoreApiKey'')"
    by (simp add: onStart_def setting_value_def registerSettings_def)
  have h': "\<not> truthy (setting_value (stored ?waiting) ''omnivoreApiKey'')"
    by (simp add: setting_value_def registerSettings_def)
  have n: "(0::nat) < length (tasks ?waiting) \<and> tasks ?waiting ! 0 = AwaitApiKey Manual"
    by simp
  have "step (Resolves 0) ?waiting
      = Some (emit [ConsoleError
          ''Omnivore API key not set. Please set your API key in the plugin settings.'']
          (finish 0 ?waiting))"
    using manual_sync_without_api_key [OF h', of 0] n by blast
  then have "step (Resolves 0) ?waiting
      = Some \<lparr>stored = Map.empty, timers = [], tasks = [], listening = True,
               effects = [ConsoleError
                 ''Omnivore API key not set. Please set your API key in the plugin settings.'']\<rparr>"
    by (simp add: emit_def finish_def)
  then show ?thesis
    using manual_sync_without_api_key [OF h] h h' n by blast
qed

text \<open>
  Claim C5, as amended. Calling the reset command writes nothing: it shows the dialog and
  waits for the answer. When the operator cancels (any answer but 0), the store is left as
  it is, a line is logged and the command ends. When the operator confirms, nothing is
  written yet and the command waits for its first write. The writes are three, each
  awaited, in this order: \<open>lastSyncDate\<close> to \<open>''\<close>, then \<open>syncedItems\<close> to \<open>'[]'\<close>, then
  \<open>syncedHighlights\<close> to \<open>'{}'\<close>. Each of them, in whatever state the plugin is when the
  host completes it, changes the one key and no other, and the command goes on to the
  next. When nothing runs in between, the store after the third write is the store at the
  confirmation with the three keys cleared. In every schedule that starts with no reset
  under way and in which nothing but the reset command writes to the three keys, the store
  after the third write of a reset has the three keys cleared, whatever else has run in
  between; the plugin starts with no reset under way. As long as no reset has been
  confirmed and nothing is written from outside, no event changes the store. The three
  writes are not one step: between them the store is reset in part, and the second and the
  third leave what has been written to the other keys in between.
\<close>

theorem reset_writes_after_confirmation_only:
  assumes "n < length (tasks s)" and "tasks s ! n = AwaitConfirm"
  shows "(\<exists>s1. step ResetOmnivoreSyncData s0 = Some s1 \<and> stored s1 = stored s0
            \<and> tasks s1 = tasks s0 @ [AwaitConfirm])
       \<and> (r \<noteq> 0 \<longrightarrow>
            step (Answers n r) s
              = Some (emit [ConsoleLog ''Reset operation cancelled by user.''] (finish n s))
            \<and> stored (emit [ConsoleLog ''Reset operation cancelled by user.''] (finish n s))
                = stored s)
       \<and> (\<exists>s1. step (Answers n 0) s = Some s1 \<and> stored s1 = stored s
            \<and> tasks s1 = (tasks s)[n := AwaitSetLastSyncDate])
       \<and> (m < length (tasks t) \<and> tasks t ! m = AwaitSetLastSyncDate \<longrightarrow>
            (\<exists>t'. step (Resolves m) t = Some t'
               \<and> stored t' = (stored t)(''lastSyncDate'' \<mapsto> SString '''')
               \<and> tasks t' = (tasks t)[m := AwaitSetSyncedItems]))
       \<and> (m < length (tasks t) \<and> tasks t ! m = AwaitSetSyncedItems \<longrightarrow>
            (\<exists>t'. step (Resolves m) t = Some t'
               \<and> stored t' = (stored t)(''syncedItems'' \<mapsto> SString ''[]'')
               \<and> tasks t' = (tasks t)[m := AwaitSetSyncedHighlights]))
       \<and> (m < length (tasks t) \<and> tasks t ! m = AwaitSetSyncedHighlights \<longrightarrow>
            (\<exists>t'. step (Resolves m) t = Some t'
               \<and> stored t' = (stored t)(''syncedHighlights'' \<mapsto> SString ''{}'')
               \<and> tasks t' = (tasks t)[m := AwaitNotice]))
       \<and> (\<exists>s'. run [Answers n 0, Resolves n, Resolves n, Resolves n] s = Some s'
            \<and> stored s'
                = (stored s)(''lastSyncDate'' \<mapsto> SString '''', ''syncedItems'' \<mapsto> SString ''[]'',
                             ''syncedHighlights'' \<mapsto> SString ''{}'')
            \<and> tasks s' = (tasks s)[n := AwaitNotice])
       \<and> (run es1 u0 = Some u \<and> list_all (\<lambda>e. \<not> writes_sync_state e) es1
            \<and> list_all (\<lambda>t. \<not> reset_writing t) (tasks u0)
            \<and> k < length (tasks u) \<and> tasks u ! k = AwaitSetSyncedHighlights \<longrightarrow>
            (\<exists>u'. step (Resolves k) u = Some u'
               \<and> stored u'
                   = (stored u)(''lastSyncDate'' \<mapsto> SString '''',
                                ''syncedItems'' \<mapsto> SString ''[]'',
                                ''syncedHighlights'' \<mapsto> SString ''{}'')
               \<and> tasks u' = (tasks u)[k := AwaitNotice]))
       \<and> (run es s0 = Some s2 \<and> list_all (\<lambda>e. \<not> confirms_or_writes e) es
            \<and> list_all (\<lambda>t. \<not> reset_writing t) (tasks s0) \<longrightarrow> stored s2 = stored s0)
       \<and> list_all (\<lambda>t. \<not> reset_writing t) (tasks (onStart persisted))"
proof (intro conjI impI)
  show "\<exists>s1. step ResetOmnivoreSyncData s0 = Some s1 \<and> stored s1 = stored s0
      \<and> tasks s1 = tasks s0 @ [AwaitConfirm]"
    by (simp add: emit_def spawn_def)
next
  assume "r \<noteq> 0"
  then show "step (Answers n r) s
      = Some (emit [ConsoleLog ''Reset operation cancelled by user.''] (finish n s))"
    using assms by simp
next
  show "stored (emit [ConsoleLog ''Reset operation cancelled by user.''] (finish n s)) = stored s"
    by (simp add: emit_def finish_def)
next
  show "\<exists>s1. step (Answers n 0) s = Some s1 \<and> stored s1 = stored s
      \<and> tasks s1 = (tasks s)[n := AwaitSetLastSyncDate]"
    using assms by (simp add: await_def)
next
  assume "m < length (tasks t) \<and> tasks t ! m = AwaitSetLastSyncDate"
  then show "\<exists>t'. step (Resolves m) t = Some t'
      \<and> stored t' = (stored t)(''lastSyncDate'' \<mapsto> SString '''')
      \<and> tasks t' = (tasks t)[m := AwaitSetSyncedItems]"
    by (simp add: await_def setValue_def)
next
  assume "m < length (tasks t) \<and> tasks t ! m = AwaitSetSyncedItems"
  then show "\<exists>t'. step (Resolves m) t = Some t'
      \<and> stored t' = (stored t)(''syncedItems'' \<mapsto> SString ''[]'')
      \<and> tasks t' = (tasks t)[m := AwaitSetSyncedHighlights]"
    by (simp add: await_def setValue_def)
next
  assume "m < length (tasks t) \<and> tasks t ! m = AwaitSetSyncedHighlights"
  then show "\<exists>t'. step (Resolves m) t = Some t'
      \<and> stored t' = (stored t)(''syncedHighlights'' \<mapsto> SString ''{}'')
      \<and> tasks t' = (tasks t)[m := AwaitNotice]"
    by (simp add: emit_def await_def setValue_def)
next
  show "\<exists>s'. run [Answers n 0, Resolves n, Resolves n, Resolves n] s = Some s'
      \<and> stored s'
          = (stored s)(''lastSyncDate'' \<mapsto> SString '''', ''syncedItems'' \<mapsto> SString ''[]'',
                       ''syncedHighlights'' \<mapsto> SString ''{}'')
      \<and> tasks s' = (tasks s)[n := AwaitNotice]"
    unfolding reset_confirmed [OF assms]
    by (simp add: stored_after_reset tasks_after_reset)
next
  assume "run es1 u0 = Some u \<and> list_all (\<lambda>e. \<not> writes_sync_state e) es1
      \<and> list_all (\<lambda>t. \<not> reset_writing t) (tasks u0)
      \<and> k < length (tasks u) \<and> tasks u ! k = AwaitSetSyncedHighlights"
  then show "\<exists>u'. step (Resolves k) u = Some u'
      \<and> stored u'
          = (stored u)(''lastSyncDate'' \<mapsto> SString '''', ''syncedItems'' \<mapsto> SString ''[]'',
                       ''syncedHighlights'' \<mapsto> SString ''{}'')
      \<and> tasks u' = (tasks u)[k := AwaitNotice]"
    using third_write_completes_reset [of es1 u0 u k] by blast
next
  assume "run es s0 = Some s2 \<and> list_all (\<lambda>e. \<not> confirms_or_writes e) es
      \<and> list_all (\<lambda>t. \<not> reset_writing t) (tasks s0)"
  then show "stored s2 = stored s0"
    using store_unchanged_without_confirmation by blast
next
  show "list_all (\<lambda>t. \<not> reset_writing t) (tasks (onStart persisted))"
    by (simp add: onStart_def)
qed

text \<open>
  The theorem on a plugin that has synchronised before. The operator calls the reset and
  cancels: the store is as it was. The operator confirms, and each of the three writes is
  seen on its own. Then a reset among other calls: after the first write the operator
  starts a sync, the second write follows, the operator changes the target notebook, the
  run ends, and the third write leaves the three keys cleared.
\<close>

theorem reset_writes_after_confirmation_only_witness:
  "(0::nat) < length (tasks \<lparr>stored = [''syncedItems'' \<mapsto> SString ''[101]''], timers = [],
        tasks = [AwaitConfirm], listening = True, effects = []\<rparr>)
   \<and> tasks \<lparr>stored = [''syncedItems'' \<mapsto> SString ''[101]''], timers = [],
        tasks = [AwaitConfirm], listening = True, effects = []\<rparr> ! 0 = AwaitConfirm
   \<and> (1::int) \<noteq> 0
   \<and> list_all (\<lambda>e. \<not> confirms_or_writes e) [ResetOmnivoreSyncData, Answers 0 1]
   \<and> list_all (\<lambda>t. \<not> reset_writing t)
        (tasks \<lparr>stored = [''syncedItems'' \<mapsto> SString ''[101]''], timers = [], tasks = [],
                listening = True, effects = []\<rparr>)
   \<and> (\<exists>s2. run [ResetOmnivoreSyncData, Answers 0 1]
              \<lparr>stored = [''syncedItems'' \<mapsto> SString ''[101]''], timers = [], tasks = [],
               listening = True, effects = []\<rparr> = Some s2
          \<and> stored s2 = [''syncedItems'' \<mapsto> SString ''[101]''])
   \<and> (\<exists>s'. step (Answers 0 1)
              \<lparr>stored = [''syncedItems'' \<mapsto> SString ''[101]''], timers = [],
               tasks = [AwaitConfirm], listening = True, effects = []\<rparr> = Some s'
          \<and> stored s' = [''syncedItems'' \<mapsto> SString ''[101]''])
   \<and> (\<exists>s'. run [Answers 0 0, Resolves 0, Resolves 0, Resolves 0]
              \<lparr>stored = [''syncedItems'' \<mapsto> SString ''[101]''], timers = [],
               tasks = [AwaitConfirm], listening = True, effects = []\<rparr> = Some s'
          \<and> stored s' ''syncedItems'' = Some (SString ''[]''))
   \<and> (0::nat) < length (tasks \<lparr>stored = [''syncedItems'' \<mapsto> SString ''[101]''], timers = [],
        tasks = [AwaitSetLastSyncDate], listening = True, effects = []\<rparr>)
   \<and> tasks \<lparr>stored = [''syncedItems'' \<mapsto> SString ''[101]''], timers = [],
        tasks = [AwaitSetLastSyncDate], listening = True, effects = []\<rparr> ! 0
       = AwaitSetLastSyncDate
   \<and> (\<exists>t'. step (Resolves 0)
              \<lparr>stored = [''syncedItems'' \<mapsto> SString ''[101]''], timers = [],
               tasks = [AwaitSetLastSyncDate], listening = True, effects = []\<rparr> = Some t'
          \<and> stored t' = [''syncedItems'' \<mapsto> SString ''[101]'', ''lastSyncDate'' \<mapsto> SString '''']
          \<and> tasks t' = [AwaitSetSyncedItems])
   \<and> (0::nat) < length (tasks \<lparr>stored = [''syncedItems'' \<mapsto> SString ''[101]''], timers = [],
        tasks = [AwaitSetSyncedItems], listening = True, effects = []\<rparr>)
   \<and> tasks \<lparr>stored = [''syncedItems'' \<mapsto> SString ''[101]''], timers = [],
        tasks = [AwaitSetSyncedItems], listening = True, effects = []\<rparr> ! 0
       = AwaitSetSyncedItems
   \<and> (\<exists>t'. step (Resolves 0)
              \<lparr>stored = [''syncedItems'' \<mapsto> SString ''[101]''], timers = [],
               tasks = [AwaitSetSyncedItems], listening = True, effects = []\<rparr> = Some t'
          \<and> stored t' = [''syncedItems'' \<mapsto> SString ''[]'']
          \<and> tasks t' = [AwaitSetSyncedHighlights])
   \<and> (0::nat) < length (tasks \<lparr>stored = [''syncedItems'' \<mapsto> SString ''[101]''], timers = [],
        tasks = [AwaitSetSyncedHighlights], listening = True, effects = []\<rparr>)
   \<and> tasks \<lparr>stored = [''syncedItems'' \<mapsto> SString ''[101]''], timers = [],
        tasks = [AwaitSetSyncedHighlights], listening = True, effects = []\<rparr> ! 0
       = AwaitSetSyncedHighlights
   \<and> (\<exists>t'. step (Resolves 0)
              \<lparr>stored = [''syncedItems'' \<mapsto> SString ''[101]''], timers = [],
               tasks = [AwaitSetSyncedHighlights], listening = True, effects = []\<rparr> = Some t'
          \<and> stored t'
              = [''syncedItems'' \<mapsto> SString ''[101]'', ''syncedHighlights'' \<mapsto> SString ''{}'']
          \<and> tasks t' = [AwaitNotice])
   \<and> list_all (\<lambda>e. \<not> writes_sync_state e)
        [ResetOmnivoreSyncData, Answers 0 0, Resolves 0, SyncOmnivoreArticles, Resolves 1,
         Resolves 0, SettingWritten ''targetNotebook'' (SString ''Inbox''), Resolves 1]
   \<and> (\<exists>u. run [ResetOmnivoreSyncData, Answers 0 0, Resolves 0, SyncOmnivoreArticles,
               Resolves 1, Resolves 0, SettingWritten ''targetNotebook'' (SString ''Inbox''),
               Resolves 1]
              \<lparr>stored = [''omnivoreApiKey'' \<mapsto> SString ''key'',
                         ''syncedItems'' \<mapsto> SString ''[101]''],
               timers = [], tasks = [], listening = True, effects = []\<rparr> = Some u
          \<and> tasks u = [AwaitSetSyncedHighlights]
          \<and> (\<exists>u'. step (Resolves 0) u = Some u'
                \<and> stored u' ''lastSyncDate'' = Some (SString '''')
                \<and> stored u' ''syncedItems'' = Some (SString ''[]'')
                \<and> stored u' ''syncedHighlights'' = Some (SString ''{}'')
                \<and> stored u' ''targetNotebook'' = Some (SString ''Inbox'')
                \<and> tasks u' = [AwaitNotice]))"
proof -
  let ?idle = "\<lparr>stored = [''syncedItems'' \<mapsto> SString ''[101]''], timers = [], tasks = [],
              listening = True, effects = []\<rparr>"
  let ?s = "\<lparr>stored = [''syncedItems'' \<mapsto> SString ''[101]''], timers = [],
             tasks = [AwaitConfirm], listening = True, effects = []\<rparr>"
  let ?w1 = "\<lparr>stored = [''syncedItems'' \<mapsto> SString ''[101]''], timers = [],
             tasks = [AwaitSetLastSyncDate], listening = True, effects = []\<rparr>"
  let ?w2 = "\<lparr>stored = [''syncedItems'' \<mapsto> SString ''[101]''], timers = [],
             tasks = [AwaitSetSyncedItems], listening = True, effects = []\<rparr>"
  let ?w3 = "\<lparr>stored = [''syncedItems'' \<mapsto> SString ''[101]''], timers = [],
             tasks = [AwaitSetSyncedHighlights], listening = True, effects = []\<rparr>"
  let ?keyed = "\<lparr>stored = [''omnivoreApiKey'' \<mapsto> SString ''key'',
                         ''syncedItems'' \<mapsto> SString ''[101]''],
               timers = [], tasks = [], listening = True, effects = []\<rparr>"
  let ?among = "[ResetOmnivoreSyncData, Answers 0 0, Resolves 0, SyncOmnivoreArticles,
                 Resolves 1, Resolves 0, SettingWritten ''targetNotebook'' (SString ''Inbox''),
                 Resolves 1]"
  have n: "(0::nat) < length (tasks ?s)" and t: "tasks ?s ! 0 = AwaitConfirm"
    by simp_all
  have r: "(1::int) \<noteq> 0"
    by simp
  have es: "list_all (\<lambda>e. \<not> confirms_or_writes e) [ResetOmnivoreSyncData, Answers 0 1]"
    and ts: "list_all (\<lambda>t. \<not> reset_writing t) (tasks ?idle)"
    by simp_all
  obtain s2 where s2: "run [ResetOmnivoreSyncData, Answers 0 1] ?idle = Some s2"
    by (simp add: emit_def spawn_def)
  have w1: "(0::nat) < length (tasks ?w1) \<and> tasks ?w1 ! 0 = AwaitSetLastSyncDate"
    and w2: "(0::nat) < length (tasks ?w2) \<and> tasks ?w2 ! 0 = AwaitSetSyncedItems"
    and w3: "(0::nat) < length (tasks ?w3) \<and> tasks ?w3 ! 0 = AwaitSetSyncedHighlights"
    by simp_all
  have am: "list_all (\<lambda>e. \<not> writes_sync_state e) ?among"
    and tk: "list_all (\<lambda>t. \<not> reset_writing t) (tasks ?keyed)"
    by simp_all
  have "map_option tasks (run ?among ?keyed) = Some [AwaitSetSyncedHighlights]"
    by code_simp
  then obtain u where u: "run ?among ?keyed = Some u"
    and tu: "tasks u = [AwaitSetSyncedHighlights]"
    by auto
  have "map_option (\<lambda>s. stored s ''targetNotebook'') (run ?among ?keyed)
      = Some (Some (SString ''Inbox''))"
    by code_simp
  with u have nb: "stored u ''targetNotebook'' = Some (SString ''Inbox'')"
    by simp
  from tu have k: "(0::nat) < length (tasks u) \<and> tasks u ! 0 = AwaitSetSyncedHighlights"
    by simp
  note inst = reset_writes_after_confirmation_only
    [OF n t, where r = 1 and ?s0.0 = ?idle and es = "[ResetOmnivoreSyncData, Answers 0 1]"
       and ?s2.0 = s2 and ?es1.0 = ?among and ?u0.0 = ?keyed and u = u and k = 0 and m = 0]
  have "stored s2 = stored ?idle"
    using inst [where t = ?w1] s2 es ts by blast
  then have a: "\<exists>s2. run [ResetOmnivoreSyncData, Answers 0 1] ?idle = Some s2
      \<and> stored s2 = [''syncedItems'' \<mapsto> SString ''[101]'']"
    using s2 by simp
  have "step (Answers 0 1) ?s
      = Some (emit [ConsoleLog ''Reset operation cancelled by user.''] (finish 0 ?s))"
    and "stored (emit [ConsoleLog ''Reset operation cancelled by user.''] (finish 0 ?s))
      = stored ?s"
    using inst [where t = ?w1] r by blast+
  then have b: "\<exists>s'. step (Answers 0 1) ?s = Some s'
      \<and> stored s' = [''syncedItems'' \<mapsto> SString ''[101]'']"
    by simp
  obtain s' where "run [Answers 0 0, Resolves 0, Resolves 0, Resolves 0] ?s = Some s'"
    and "stored s' = (stored ?s)(''lastSyncDate'' \<mapsto> SString '''',
        ''syncedItems'' \<mapsto> SString ''[]'', ''syncedHighlights'' \<mapsto> SString ''{}'')"
    using inst [where t = ?w1] by blast
  then have c: "\<exists>s'. run [Answers 0 0, Resolves 0, Resolves 0, Resolves 0] ?s = Some s'
      \<and> stored s' ''syncedItems'' = Some (SString ''[]'')"
    by simp
  obtain t1 where "step (Resolves 0) ?w1 = Some t1"
    and "stored t1 = (stored ?w1)(''lastSyncDate'' \<mapsto> SString '''')"
    and "tasks t1 = (tasks ?w1)[0 := AwaitSetSyncedItems]"
    using inst [where t = ?w1] w1 by blast
  then have d1: "\<exists>t'. step (Resolves 0) ?w1 = Some t'
      \<and> stored t' = [''syncedItems'' \<mapsto> SString ''[101]'', ''lastSyncDate'' \<mapsto> SString '''']
      \<and> tasks t' = [AwaitSetSyncedItems]"
    by simp
  obtain t2 where "step (Resolves 0) ?w2 = Some t2"
    and "stored t2 = (stored ?w2)(''syncedItems'' \<mapsto> SString ''[]'')"
    and "tasks t2 = (tasks ?w2)[0 := AwaitSetSyncedHighlights]"
    using inst [where t = ?w2] w2 by blast
  then have d2: "\<exists>t'. step (Resolves 0) ?w2 = Some t'
      \<and> stored t' = [''syncedItems'' \<mapsto> SString ''[]'']
      \<and> tasks t' = [AwaitSetSyncedHighlights]"
    by simp
  obtain t3 where "step (Resolves 0) ?w3 = Some t3"
    and "stored t3 = (stored ?w3)(''syncedHighlights'' \<mapsto> SString ''{}'')"
    and "tasks t3 = (tasks ?w3)[0 := AwaitNotice]"
    using inst [where t = ?w3] w3 by blast
  then have d3: "\<exists>t'. step (Resolves 0) ?w3 = Some t'
      \<and> stored t'
          = [''syncedItems'' \<mapsto> SString ''[101]'', ''syncedHighlights'' \<mapsto> SString ''{}'']
      \<and> tasks t' = [AwaitNotice]"
    by simp
  obtain u' where u': "step (Resolves 0) u = Some u'"
    and su: "stored u' = (stored u)(''lastSyncDate'' \<mapsto> SString '''',
        ''syncedItems'' \<mapsto> SString ''[]'', ''syncedHighlights'' \<mapsto> SString ''{}'')"
    and tu': "tasks u' = (tasks u)[0 := AwaitNotice]"
    using inst [where t = ?w1] u am tk k by blast
  have "stored u' ''lastSyncDate'' = Some (SString '''')"
    and "stored u' ''syncedItems'' = Some (SString ''[]'')"
    and "stored u' ''syncedHighlights'' = Some (SString ''{}'')"
    and "stored u' ''targetNotebook'' = Some (SString ''Inbox'')"
    and "tasks u' = [AwaitNotice]"
    unfolding su tu' using nb tu by simp_all
  with u tu u' have e: "\<exists>u. run ?among ?keyed = Some u
      \<and> tasks u = [AwaitSetSyncedHighlights]
      \<and> (\<exists>u'. step (Resolves 0) u = Some u'
            \<and> stored u' ''lastSyncDate'' = Some (SString '''')
            \<and> stored u' ''syncedItems'' = Some (SString ''[]'')
            \<and> stored u' ''syncedHighlights'' = Some (SString ''{}'')
            \<and> stored u' ''targetNotebook'' = Some (SString ''Inbox'')
            \<and> tasks u' = [AwaitNotice])"
    by blast
  show ?thesis
    using n t r es ts a b c w1 d1 w2 d2 w3 d3 am e by blast
qed

text \<open>
  Claim C5 as stated fails where it says that the reset is a single atomic step and never
  in part. The operator confirms the reset, and the host completes the first write. Before
  the second the operator runs the sync command: the run starts while \<open>lastSyncDate\<close>
  is cleared and \<open>syncedItems\<close> still holds what was synchronised.
\<close>

theorem reset_observed_in_part:
  "map_option
     (\<lambda>s. (setting_value (stored s) ''lastSyncDate'', setting_value (stored s) ''syncedItems'',
           tasks s))
     (run [ResetOmnivoreSyncData, Answers 0 0, Resolves 0, SyncOmnivoreArticles, Resolves 1]
        \<lparr>stored = [''omnivoreApiKey'' \<mapsto> SString ''key'',
                   ''lastSyncDate'' \<mapsto> SString ''2024-05-01T10:00:00Z'',
                   ''syncedItems'' \<mapsto> SString ''[101]''],
         timers = [], tasks = [], listening = True, effects = []\<rparr>)
   = Some (Some (SString ''''), Some (SString ''[101]''),
           [AwaitSetSyncedItems, AwaitSyncArticles Manual])"
  by code_simp




text \<open>
  Claim C7 fails on the code. The plugin starts with an interval of five minutes and a
  key, and creates its timer. The operator sets the interval to zero, and the host reports
  the change: \<open>setupScheduledSync\<close> reads zero and creates no timer, but the timer of
  five minutes is still there. It fires while the configured interval is zero, and a run
  starts that no manual command asked for. The defect is the one of claim C2; in a
  session whose interval is zero from the start nothing is scheduled
  (\<open>interval_zero_schedules_nothing\<close>).
\<close>

theorem timer_fires_at_interval_zero:
  "map_option
     (\<lambda>s. (setting_value (stored s) ''syncInterval'', timers s, tasks s, effects s))
     (run [Resolves 0, Resolves 0,
           SettingWritten ''syncInterval'' (SNumber 0), SettingsChanged, Resolves 0,
           TimerFires 0, Resolves 0]
        (onStart [''syncInterval'' \<mapsto> SNumber 5, ''omnivoreApiKey'' \<mapsto> SString ''key'']))
   = Some (Some (SNumber 0), [300000], [AwaitSyncArticles Scheduled],
           [ConsoleLog ''Omnivore Sync plugin started'',
            NewOmnivoreClient (Some (SString ''key'')), SyncArticles (Some (SString ''key''))])"
  by code_simp

text \<open>
  Claim C8. The rule with its state, \<open>heading_replacement\<close>, is defined on every input and
  every heap (the loops of \<open>scan\<close> and \<open>collect\<close> terminate). On whatever heap it is
  called, it returns the text that \<open>replacement\<close> gives for the content and the node, and
  it leaves the heap as it was but for the new RegExp object of its literal: it changes no
  object that was there, and what the objects of earlier calls hold has no part in the
  text. So two calls with the same content and nodes of the same name return the same
  text, whatever the heaps, whatever else the nodes hold and whatever options are passed;
  and a series of calls, each on the heap the one before has left, returns for each call
  the text of that call alone. The state that \<open>exec\<close> does read is reset by
  \<open>replace\<close> itself: on a RegExp that is on the heap already, whatever its
  \<open>lastIndex\<close>, \<open>replace\<close> returns the same text and leaves \<open>lastIndex\<close> at 0. The
  rule calls methods of strings and of its RegExp only; it has no access to the network.
\<close>

theorem heading_replacement_stateless:
  fixes node :: "'a dom_node_scheme" and node' :: "'b dom_node_scheme"
    and options :: 'o and options' :: 'p
  shows "heading_replacement content node options h
           = (replacement content node options, h @ [\<lparr>lastIndex = 0\<rparr>])
       \<and> (nodeName node = nodeName node' \<longrightarrow>
            fst (heading_replacement content node options h)
              = fst (heading_replacement content node' options' h'))
       \<and> invocations calls h
           = (map (\<lambda>(content, name). replacement content \<lparr>nodeName = name\<rparr> ()) calls,
              h @ replicate (length calls) \<lparr>lastIndex = 0\<rparr>)
       \<and> (rx < length h \<longrightarrow>
            replace rx content h
              = (remove_remnants content, h[rx := (h ! rx)\<lparr>lastIndex := 0\<rparr>]))"
proof (intro conjI impI)
  show "heading_replacement content node options h
      = (replacement content node options, h @ [\<lparr>lastIndex = 0\<rparr>])"
    by (rule heading_replacement_result)
next
  assume "nodeName node = nodeName node'"
  then have "replacement content node options = replacement content node' options'"
    by (simp add: replacement_def hLevel_def)
  then show "fst (heading_replacement content node options h)
      = fst (heading_replacement content node' options' h')"
    by (simp add: heading_replacement_result)
next
  show "invocations calls h
      = (map (\<lambda>(content, name). replacement content \<lparr>nodeName = name\<rparr> ()) calls,
         h @ replicate (length calls) \<lparr>lastIndex = 0\<rparr>)"
    by (rule invocations_result)
next
  assume "rx < length h"
  then show "replace rx content h
      = (remove_remnants content, h[rx := (h ! rx)\<lparr>lastIndex := 0\<rparr>])"
    by (rule replace_result)
qed

text \<open>
  The theorem at two nodes named \<open>H3\<close> that differ in what else they hold, called with
  different options, the first on an empty heap and the second on a heap that holds the
  RegExp objects of earlier calls; at three calls in a row; and at a RegExp whose
  \<open>lastIndex\<close> an earlier \<open>exec\<close> on the same string has left at 16. That \<open>exec\<close>
  itself depends on the state is seen on that string: from \<open>lastIndex\<close> 0 it finds the
  match from 6 to 16, from 16 it finds none.
\<close>

theorem heading_replacement_stateless_witness:
  "nodeName \<lparr>nodeName = utf16 ''H3'', \<dots> = (7::nat)\<rparr> = nodeName \<lparr>nodeName = utf16 ''H3'', \<dots> = True\<rparr>
   \<and> fst (heading_replacement (utf16 ''Usage [](#usage)'')
            \<lparr>nodeName = utf16 ''H3'', \<dots> = (7::nat)\<rparr> ''atx'' [])
       = fst (heading_replacement (utf16 ''Usage [](#usage)'')
            \<lparr>nodeName = utf16 ''H3'', \<dots> = True\<rparr> () [\<lparr>lastIndex = 0\<rparr>, \<lparr>lastIndex = 0\<rparr>])
   \<and> fst (heading_replacement (utf16 ''Usage [](#usage)'')
            \<lparr>nodeName = utf16 ''H3'', \<dots> = (7::nat)\<rparr> ''atx'' [])
       = utf16 ''\<newline>\<newline>### Usage\<newline>\<newline>''
   \<and> fst (invocations [(utf16 ''Usage [](#usage)'', utf16 ''H3''), (utf16 ''Top'', utf16 ''H1''),
                         (utf16 ''Usage [](#usage)'', utf16 ''H3'')] [])
       = [utf16 ''\<newline>\<newline>### Usage\<newline>\<newline>'', utf16 ''\<newline>\<newline># Top\<newline>\<newline>'',
          utf16 ''\<newline>\<newline>### Usage\<newline>\<newline>'']
   \<and> (0::nat) < length [\<lparr>lastIndex = 16\<rparr>]
   \<and> replace 0 (utf16 ''Usage [](#usage)'') [\<lparr>lastIndex = 16\<rparr>]
       = (utf16 ''Usage '', [\<lparr>lastIndex = 0\<rparr>])
   \<and> fst (RegExpBuiltinExec 0 (utf16 ''Usage [](#usage)'') [\<lparr>lastIndex = 0\<rparr>]) = Some (6, 16)
   \<and> fst (RegExpBuiltinExec 0 (utf16 ''Usage [](#usage)'') [\<lparr>lastIndex = 16\<rparr>]) = None"
proof -
  let ?content = "utf16 ''Usage [](#usage)''"
  have n: "nodeName \<lparr>nodeName = utf16 ''H3'', \<dots> = (7::nat)\<rparr>
      = nodeName \<lparr>nodeName = utf16 ''H3'', \<dots> = True\<rparr>"
    by simp
  have l: "(0::nat) < length [\<lparr>lastIndex = 16\<rparr>]"
    by simp
  have r: "replacement ?content \<lparr>nodeName = utf16 ''H3'', \<dots> = (7::nat)\<rparr> ''atx''
      = utf16 ''\<newline>\<newline>### Usage\<newline>\<newline>''"
    by code_simp
  have c: "remove_remnants ?content = utf16 ''Usage ''"
    by code_simp
  have x: "fst (RegExpBuiltinExec 0 ?content [\<lparr>lastIndex = 0\<rparr>]) = Some (6, 16)
      \<and> fst (RegExpBuiltinExec 0 ?content [\<lparr>lastIndex = 16\<rparr>]) = None"
    by code_simp
  note inst = heading_replacement_stateless
    [where content = ?content and node = "\<lparr>nodeName = utf16 ''H3'', \<dots> = (7::nat)\<rparr>"
       and node' = "\<lparr>nodeName = utf16 ''H3'', \<dots> = True\<rparr>" and options = "''atx''"
       and options' = "()" and h' = "[\<lparr>lastIndex = 0\<rparr>, \<lparr>lastIndex = 0\<rparr>]"]
  have a: "fst (heading_replacement ?content \<lparr>nodeName = utf16 ''H3'', \<dots> = (7::nat)\<rparr> ''atx'' [])
      = fst (heading_replacement ?content \<lparr>nodeName = utf16 ''H3'', \<dots> = True\<rparr> ()
          [\<lparr>lastIndex = 0\<rparr>, \<lparr>lastIndex = 0\<rparr>])"
    using inst [where h = "[]" and rx = 0 and calls = "[]"] n by blast
  have "heading_replacement ?content \<lparr>nodeName = utf16 ''H3'', \<dots> = (7::nat)\<rparr> ''atx'' []
      = (replacement ?content \<lparr>nodeName = utf16 ''H3'', \<dots> = (7::nat)\<rparr> ''atx'',
         [] @ [\<lparr>lastIndex = 0\<rparr>])"
    using inst [where h = "[]" and rx = 0 and calls = "[]"] by blast
  then have b: "fst (heading_replacement ?content
        \<lparr>nodeName = utf16 ''H3'', \<dots> = (7::nat)\<rparr> ''atx'' [])
      = utf16 ''\<newline>\<newline>### Usage\<newline>\<newline>''"
    unfolding r by simp
  have "replace 0 ?content [\<lparr>lastIndex = 16\<rparr>]
      = (remove_remnants ?content,
         [\<lparr>lastIndex = 16\<rparr>][0 := ([\<lparr>lastIndex = 16\<rparr>] ! 0)\<lparr>lastIndex := 0\<rparr>])"
    using inst [where h = "[\<lparr>lastIndex = 16\<rparr>]" and rx = 0 and calls = "[]"] l by blast
  then have d: "replace 0 ?content [\<lparr>lastIndex = 16\<rparr>] = (utf16 ''Usage '', [\<lparr>lastIndex = 0\<rparr>])"
    unfolding c by simp
  have m: "map (\<lambda>(content, name). replacement content \<lparr>nodeName = name\<rparr> ())
        [(?content, utf16 ''H3''), (utf16 ''Top'', utf16 ''H1''), (?content, utf16 ''H3'')]
      = [utf16 ''\<newline>\<newline>### Usage\<newline>\<newline>'', utf16 ''\<newline>\<newline># Top\<newline>\<newline>'',
         utf16 ''\<newline>\<newline>### Usage\<newline>\<newline>'']"
    by code_simp
  have "invocations
        [(?content, utf16 ''H3''), (utf16 ''Top'', utf16 ''H1''), (?content, utf16 ''H3'')] []
      = (map (\<lambda>(content, name). replacement content \<lparr>nodeName = name\<rparr> ())
           [(?content, utf16 ''H3''), (utf16 ''Top'', utf16 ''H1''), (?content, utf16 ''H3'')],
         [] @ replicate
           (length [(?content, utf16 ''H3''), (utf16 ''Top'', utf16 ''H1''),
                    (?content, utf16 ''H3'')]) \<lparr>lastIndex = 0\<rparr>)"
    using inst [where h = "[]" and rx = 0 and calls =
        "[(?content, utf16 ''H3''), (utf16 ''Top'', utf16 ''H1''), (?content, utf16 ''H3'')]"]
    by blast
  then have e: "fst (invocations
        [(?content, utf16 ''H3''), (utf16 ''Top'', utf16 ''H1''), (?content, utf16 ''H3'')] [])
      = [utf16 ''\<newline>\<newline>### Usage\<newline>\<newline>'', utf16 ''\<newline>\<newline># Top\<newline>\<newline>'',
         utf16 ''\<newline>\<newline>### Usage\<newline>\<newline>'']"
    unfolding m by simp
  show ?thesis
    using n a b e l d x by blast
qed

text \<open>
  Claim C9, as amended. The removal deletes every occurrence of the pattern, not only the
  first: wherever \<open>[](\<close>, one or more characters other than \<open>)\<close>, and \<open>)\<close> stand in
  the content, the cleaned content is made of characters before the occurrence followed
  by the cleaned rest, and the heading is built from that. The text \<open>[]()\<close> is not an
  occurrence: when no \<open>[](\<close> before it is still waiting for its \<open>)\<close>, it is kept and
  stands in the heading. When such a \<open>[](\<close> does stand before it, it is deleted with it.
\<close>

theorem remnant_removal_in_heading:
  fixes node :: "'a dom_node_scheme" and options :: 'o
  shows
  "(x \<noteq> [] \<and> 0x29 \<notin> set x \<longrightarrow>
      (\<exists>u. subseq u pre
         \<and> remove_remnants (pre @ remnant x @ post) = u @ remove_remnants post
         \<and> replacement (pre @ remnant x @ post) node options
             = utf16 ''\<newline>\<newline>'' @ repeat (utf16 ''#'') (hLevel node) @ utf16 '' ''
                 @ trim (u @ remove_remnants post) @ utf16 ''\<newline>\<newline>''))
   \<and> (\<not> open_remnant pre \<longrightarrow>
        remove_remnants (pre @ utf16 ''[]()'' @ post)
          = remove_remnants pre @ utf16 ''[]()'' @ remove_remnants post
        \<and> (\<exists>a b. replacement (pre @ utf16 ''[]()'' @ post) node options
                   = a @ utf16 ''[]()'' @ b))
   \<and> (open_remnant pre \<longrightarrow>
        (\<exists>u. subseq u pre
           \<and> remove_remnants (pre @ utf16 ''[]()'' @ post) = u @ remove_remnants post))"
proof (intro conjI impI)
  assume "x \<noteq> [] \<and> 0x29 \<notin> set x"
  then obtain u where u: "subseq u pre"
      "remove_remnants (pre @ remnant x @ post) = u @ remove_remnants post"
    using remnant_deleted [of x pre post] by blast
  then show "\<exists>u. subseq u pre
         \<and> remove_remnants (pre @ remnant x @ post) = u @ remove_remnants post
         \<and> replacement (pre @ remnant x @ post) node options
             = utf16 ''\<newline>\<newline>'' @ repeat (utf16 ''#'') (hLevel node) @ utf16 '' ''
                 @ trim (u @ remove_remnants post) @ utf16 ''\<newline>\<newline>''"
    by (intro exI [of _ u]) (simp add: replacement_def)
next
  assume closed: "\<not> open_remnant pre"
  have "utf16 ''[]()'' @ post = [] \<or> hd (utf16 ''[]()'' @ post) = 0x5B"
    by (simp add: utf16_def)
  with closed have "remove_remnants (pre @ utf16 ''[]()'' @ post)
      = remove_remnants pre @ remove_remnants (utf16 ''[]()'' @ post)"
    by (rule remove_remnants_append)
  then show kept: "remove_remnants (pre @ utf16 ''[]()'' @ post)
      = remove_remnants pre @ utf16 ''[]()'' @ remove_remnants post"
    by (simp only: remove_remnants_empty_parens)
  have "utf16 ''[]()'' \<noteq> []" and "\<not> is_js_whitespace (hd (utf16 ''[]()''))"
    and "\<not> is_js_whitespace (last (utf16 ''[]()''))"
    by (simp_all add: utf16_def is_js_whitespace_def)
  then obtain a b where
    "trim (remove_remnants pre @ utf16 ''[]()'' @ remove_remnants post) = a @ utf16 ''[]()'' @ b"
    using trim_keeps_middle by blast
  then have "replacement (pre @ utf16 ''[]()'' @ post) node options
      = (utf16 ''\<newline>\<newline>'' @ repeat (utf16 ''#'') (hLevel node) @ utf16 '' '' @ a)
          @ utf16 ''[]()'' @ (b @ utf16 ''\<newline>\<newline>'')"
    unfolding replacement_def kept by simp
  then show "\<exists>a b. replacement (pre @ utf16 ''[]()'' @ post) node options
      = a @ utf16 ''[]()'' @ b"
    by blast
next
  assume "open_remnant pre"
  then obtain p y where py: "pre = p @ [0x5B, 0x5D, 0x28] @ y" "0x29 \<notin> set y"
    using open_remnant_split by blast
  have occ: "pre @ utf16 ''[]()'' @ post = p @ remnant (y @ [0x5B, 0x5D, 0x28]) @ post"
    by (simp add: py(1) remnant_def utf16_def)
  have "y @ [0x5B, 0x5D, 0x28] \<noteq> []" and "0x29 \<notin> set (y @ [0x5B, 0x5D, 0x28 :: 16 word])"
    using py(2) by simp_all
  then obtain u where u: "subseq u p"
      "remove_remnants (p @ remnant (y @ [0x5B, 0x5D, 0x28]) @ post) = u @ remove_remnants post"
    using remnant_deleted by blast
  have "subseq u pre"
    unfolding py(1) using u(1) by (rule subseq_rev_drop_many)
  moreover have "remove_remnants (pre @ utf16 ''[]()'' @ post) = u @ remove_remnants post"
    unfolding occ by (rule u(2))
  ultimately show "\<exists>u. subseq u pre
      \<and> remove_remnants (pre @ utf16 ''[]()'' @ post) = u @ remove_remnants post"
    by blast
qed

theorem remnant_removal_in_heading_witness:
  "utf16 ''#a'' \<noteq> [] \<and> 0x29 \<notin> set (utf16 ''#a'')
   \<and> \<not> open_remnant (utf16 ''A '') \<and> open_remnant (utf16 ''A [](b'')
   \<and> (\<exists>u. subseq u (utf16 ''A '')
         \<and> remove_remnants (utf16 ''A '' @ remnant (utf16 ''#a'') @ utf16 '' B'')
             = u @ remove_remnants (utf16 '' B''))
   \<and> remove_remnants (utf16 ''A '' @ utf16 ''[]()'' @ utf16 '' B'')
       = remove_remnants (utf16 ''A '') @ utf16 ''[]()'' @ remove_remnants (utf16 '' B'')
   \<and> (\<exists>u. subseq u (utf16 ''A [](b'')
         \<and> remove_remnants (utf16 ''A [](b'' @ utf16 ''[]()'' @ utf16 '' B'')
             = u @ remove_remnants (utf16 '' B''))"
proof -
  have h1: "utf16 ''#a'' \<noteq> [] \<and> 0x29 \<notin> set (utf16 ''#a'')"
    by (simp add: utf16_def)
  have h2: "\<not> open_remnant (utf16 ''A '')"
    by (simp add: utf16_def)
  have h3: "open_remnant (utf16 ''A [](b'')"
    by (simp add: utf16_def)
  note closed = remnant_removal_in_heading
    [where x = "utf16 ''#a''" and pre = "utf16 ''A ''" and post = "utf16 '' B''"
       and node = "\<lparr>nodeName = utf16 ''H1''\<rparr>" and options = "()"]
  note opened = remnant_removal_in_heading
    [where x = "utf16 ''#a''" and pre = "utf16 ''A [](b''" and post = "utf16 '' B''"
       and node = "\<lparr>nodeName = utf16 ''H1''\<rparr>" and options = "()"]
  show ?thesis
    using h1 h2 h3 closed opened by blast
qed

text \<open>
  Claim C9 as stated fails where it says that \<open>[]()\<close> is never removed. In the content
  \<open>"Notes [](#a []()"\<close> the pattern matches from the first \<open>[](\<close> to the only
  \<open>)\<close>, and the \<open>[]()\<close> goes with the match.
\<close>

theorem heading_removes_enclosed_empty_parens:
  "replacement (utf16 ''Notes [](#a []()'') \<lparr>nodeName = utf16 ''H1''\<rparr> ()
     = utf16 ''\<newline>\<newline>'' @ utf16 ''# Notes'' @ utf16 ''\<newline>\<newline>''
   \<and> sublist (utf16 ''[]()'') (utf16 ''Notes [](#a []()'')
   \<and> \<not> sublist (utf16 ''[]()'')
        (replacement (utf16 ''Notes [](#a []()'') \<lparr>nodeName = utf16 ''H1''\<rparr> ())"
  by code_simp

text \<open>
  Claim C10. When a recurring timer fires and the API key read is empty, the plugin is
  left exactly as it was: no client, no call of \<open>syncArticles\<close>, and no message, where
  the manual command writes an error to the console.
\<close>

theorem scheduled_sync_without_api_key:
  assumes "\<not> truthy (setting_value (stored s) ''omnivoreApiKey'')"
  shows "(i < length (timers s) \<longrightarrow>
            run [TimerFires i, Resolves (length (tasks s))] s = Some s)
       \<and> (n < length (tasks s) \<and> tasks s ! n = AwaitApiKey Scheduled \<longrightarrow>
            step (Resolves n) s = Some (finish n s)
            \<and> effects (finish n s) = effects s)"
proof (intro conjI impI)
  assume i: "i < length (timers s)"
  let ?s1 = "spawn (AwaitApiKey Scheduled) s"
  have "\<not> truthy (setting_value (stored ?s1) ''omnivoreApiKey'')"
    using assms by (simp add: spawned_task)
  then have "step (Resolves (length (tasks s))) ?s1 = Some (finish (length (tasks s)) ?s1)"
    using resume_api_key_missing [of "length (tasks s)" ?s1 Scheduled]
      spawned_task [where s = s and t = "AwaitApiKey Scheduled"]
    by simp
  then show "run [TimerFires i, Resolves (length (tasks s))] s = Some s"
    using i by (simp add: finish_spawned)
next
  assume "n < length (tasks s) \<and> tasks s ! n = AwaitApiKey Scheduled"
  then show "step (Resolves n) s = Some (finish n s)"
    using resume_api_key_missing [of n s Scheduled] assms by simp
next
  show "effects (finish n s) = effects s"
    by (simp add: finish_def)
qed

text \<open>
  The theorem on a plugin with one timer of five minutes whose key has been emptied.
\<close>

theorem scheduled_sync_without_api_key_witness:
  "\<not> truthy (setting_value
        (stored \<lparr>stored = [''omnivoreApiKey'' \<mapsto> SString ''''], timers = [300000], tasks = [],
                 listening = True, effects = []\<rparr>) ''omnivoreApiKey'')
   \<and> (0::nat) < length (timers \<lparr>stored = [''omnivoreApiKey'' \<mapsto> SString ''''],
          timers = [300000], tasks = [], listening = True, effects = []\<rparr>)
   \<and> run [TimerFires 0, Resolves 0]
        \<lparr>stored = [''omnivoreApiKey'' \<mapsto> SString ''''], timers = [300000], tasks = [],
         listening = True, effects = []\<rparr>
       = Some \<lparr>stored = [''omnivoreApiKey'' \<mapsto> SString ''''], timers = [300000], tasks = [],
               listening = True, effects = []\<rparr>
   \<and> \<not> truthy (setting_value
        (stored \<lparr>stored = [''omnivoreApiKey'' \<mapsto> SString ''''], timers = [300000],
                 tasks = [AwaitApiKey Scheduled], listening = True, effects = []\<rparr>)
        ''omnivoreApiKey'')
   \<and> (0::nat) < length (tasks \<lparr>stored = [''omnivoreApiKey'' \<mapsto> SString ''''],
          timers = [300000], tasks = [AwaitApiKey Scheduled], listening = True,
          effects = []\<rparr>)
   \<and> tasks \<lparr>stored = [''omnivoreApiKey'' \<mapsto> SString ''''], timers = [300000],
          tasks = [AwaitApiKey Scheduled], listening = True, effects = []\<rparr> ! 0
       = AwaitApiKey Scheduled
   \<and> step (Resolves 0)
        \<lparr>stored = [''omnivoreApiKey'' \<mapsto> SString ''''], timers = [300000],
         tasks = [AwaitApiKey Scheduled], listening = True, effects = []\<rparr>
       = Some \<lparr>stored = [''omnivoreApiKey'' \<mapsto> SString ''''], timers = [300000], tasks = [],
               listening = True, effects = []\<rparr>"
proof -
  let ?s = "\<lparr>stored = [''omnivoreApiKey'' \<mapsto> SString ''''], timers = [300000], tasks = [],
             listening = True, effects = []\<rparr>"
  let ?waiting = "\<lparr>stored = [''omnivoreApiKey'' \<mapsto> SString ''''], timers = [300000],
             tasks = [AwaitApiKey Scheduled], listening = True, effects = []\<rparr>"
  have h: "\<not> truthy (setting_value (stored ?s) ''omnivoreApiKey'')"
    and h': "\<not> truthy (setting_value (stored ?waiting) ''omnivoreApiKey'')"
    by (simp_all add: setting_value_def)
  have i: "(0::nat) < length (timers ?s)"
    by simp
  have n: "(0::nat) < length (tasks ?waiting) \<and> tasks ?waiting ! 0 = AwaitApiKey Scheduled"
    by simp
  have "step (Resolves 0) ?waiting = Some (finish 0 ?waiting)"
    using scheduled_sync_without_api_key [OF h', of 0 0] n by blast
  then have w: "step (Resolves 0) ?waiting = Some ?s"
    by (simp add: finish_def)
  have "run [TimerFires 0, Resolves 0] ?s = Some ?s"
    using scheduled_sync_without_api_key [OF h, of 0] i by simp
  then show ?thesis
    using h h' i n w by blast
qed

end
